theory Spec2Isabelle
  imports Main "HOL-Library.AList" "HOL-Library.Word"
begin

unbundle bit_operations_syntax

section \<open>Data model\<close>

text \<open>
  The three modules (\<^verbatim>\<open>App.tsx\<close>, \<^verbatim>\<open>ifc/exportIfc2x3.ts\<close>, \<^verbatim>\<open>ifc/importIfc.ts\<close>) declare
  the same \<^verbatim>\<open>TreeNode\<close> type up to the optional fields \<^verbatim>\<open>docs\<close> and \<^verbatim>\<open>ifc\<close>.  Every
  operation below copies a node with the spread operator and overwrites a few fields,
  so the record holds the fields that some operation reads or writes; \<^verbatim>\<open>docs\<close> is
  carried along untouched by all of them and is left out.

  A \<^verbatim>\<open>Record<string, TreeNode>\<close> is an association list in the enumeration order of
  the JavaScript object (\<^verbatim>\<open>Object.entries\<close>, \<^verbatim>\<open>Object.values\<close>): assigning to an existing
  key keeps its position and a new key is appended, which is what \<open>AList.update\<close>
  does.  Keys that look like array indices (which JavaScript enumerates first) and the
  members inherited from \<^verbatim>\<open>Object.prototype\<close> are outside the model.  Strings are
  \<open>char list\<close>; upper-casing and white space are those of ASCII.
\<close>

datatype NodeKind = Root | Project | Site | Building | Storey | ClassGroup | Object

record Pset =
  pset_name :: string
  props :: "(string \<times> string) list"

record IfcRef =
  modelID :: nat
  expressID :: nat
  globalId :: "string option"
  ifc_type :: "string option"

record TreeNode =
  id' :: string
  kind :: NodeKind
  name :: string
  parentId :: "string option"
  children :: "string list"
  ifcClass :: "string option"
  tag :: "string option"
  psets :: "Pset list option"
  ifc :: "IfcRef option"

type_synonym NodeMap = "(string \<times> TreeNode) list"

definition has_key :: "NodeMap \<Rightarrow> string \<Rightarrow> bool" where
  "has_key m k = (map_of m k \<noteq> None)"

definition kind_at :: "NodeMap \<Rightarrow> string \<Rightarrow> NodeKind option" where
  "kind_at m k = map_option kind (map_of m k)"

text \<open>The node literal \<^verbatim>\<open>{ id: "root", kind: "Root", name: "Workspace", children: [] }\<close>.\<close>

definition rootNode :: TreeNode where
  "rootNode = \<lparr> id' = ''root'', kind = Root, name = ''Workspace'', parentId = None,
     children = [], ifcClass = None, tag = None, psets = None, ifc = None \<rparr>"

section \<open>Repair: \<^verbatim>\<open>sanitizeNodes\<close> (App.tsx)\<close>

text \<open>
  One iteration of the loop over \<^verbatim>\<open>Object.entries(out)\<close>: the entry \<open>(i, n)\<close> was read
  before the loop started, \<open>out\<close> is the object as mutated so far.  A \<^verbatim>\<open>parentId\<close> that is
  the empty string is falsy and is kept.
\<close>

definition sanitize_step :: "string \<times> TreeNode \<Rightarrow> NodeMap \<Rightarrow> NodeMap" where
  "sanitize_step e out =
     (let i = fst e; n = snd e;
          cs = filter (\<lambda>cid. has_key out cid \<and> cid \<noteq> i) (children n);
          n1 = n\<lparr>children := cs\<rparr>;
          out1 = AList.update i n1 out
      in case parentId n1 of
           None \<Rightarrow> out1
         | Some p \<Rightarrow>
             if p \<noteq> [] \<and> \<not> has_key out1 p
             then AList.update i (n1\<lparr>parentId := None\<rparr>) out1
             else out1)"

definition sanitizeNodes :: "NodeMap \<Rightarrow> NodeMap" where
  "sanitizeNodes input =
     (let out1 = fold sanitize_step input input;
          out2 = (if has_key out1 ''root'' then out1
                  else AList.update ''root'' rootNode out1);
          root = (case map_of out2 ''root'' of None \<Rightarrow> rootNode | Some r \<Rightarrow> r);
          validRootChildren =
            filter (\<lambda>cid. kind_at out2 cid = Some Project) (children root)
      in if validRootChildren = []
         then AList.update ''root''
                (root\<lparr>children := map id' (filter (\<lambda>n. kind n = Project) (map snd out2))\<rparr>)
                out2
         else AList.update ''root'' (root\<lparr>children := validRootChildren\<rparr>) out2)"

text \<open>Test snapshots: a node with the given key and kind and nothing else.\<close>

definition bare :: "string \<Rightarrow> NodeKind \<Rightarrow> string option \<Rightarrow> string list \<Rightarrow> TreeNode" where
  "bare i k p cs = \<lparr> id' = i, kind = k, name = i, parentId = p, children = cs,
     ifcClass = None, tag = None, psets = None, ifc = None \<rparr>"

definition snapshot_two_projects :: NodeMap where
  "snapshot_two_projects =
     [(''root'', bare ''root'' Project None []), (''p'', bare ''p'' Project None [])]"

definition snapshot_root_project :: NodeMap where
  "snapshot_root_project = [(''root'', bare ''root'' Project None [])]"

section \<open>Move operations (App.tsx)\<close>

text \<open>
  Each move is the function passed to \<^verbatim>\<open>setNodes\<close>: it maps the previous snapshot to the
  next one.  \<^verbatim>\<open>detachFromParent\<close> does nothing for a falsy parent id (\<^verbatim>\<open>undefined\<close> or the
  empty string) and for a parent that is not in the map.
\<close>

definition detachFromParent :: "string \<Rightarrow> string option \<Rightarrow> NodeMap \<Rightarrow> NodeMap" where
  "detachFromParent childId pid draft =
     (case pid of
        None \<Rightarrow> draft
      | Some q \<Rightarrow>
          if q = [] then draft
          else (case map_of draft q of
                  None \<Rightarrow> draft
                | Some p \<Rightarrow>
                    AList.update q (p\<lparr>children := filter (\<lambda>c. c \<noteq> childId) (children p)\<rparr>) draft))"

definition attachToParent :: "string \<Rightarrow> string \<Rightarrow> NodeMap \<Rightarrow> NodeMap" where
  "attachToParent childId q draft =
     (case map_of draft q of
        None \<Rightarrow> draft
      | Some p \<Rightarrow> AList.update q (p\<lparr>children := children p @ [childId]\<rparr>) draft)"

definition moveBuildingToSite :: "string \<Rightarrow> string \<Rightarrow> NodeMap \<Rightarrow> NodeMap" where
  "moveBuildingToSite buildingId targetSiteId prev =
     (case map_of prev buildingId of
        None \<Rightarrow> prev
      | Some b \<Rightarrow>
          if kind b \<noteq> Building then prev
          else (case map_of prev targetSiteId of
                  None \<Rightarrow> prev
                | Some targetSite \<Rightarrow>
                    if kind targetSite \<noteq> Site then prev
                    else if parentId b = Some targetSiteId then prev
                    else AList.update buildingId (b\<lparr>parentId := Some targetSiteId\<rparr>)
                           (attachToParent buildingId targetSiteId
                              (detachFromParent buildingId (parentId b) prev))))"

definition moveStoreyToBuilding :: "string \<Rightarrow> string \<Rightarrow> NodeMap \<Rightarrow> NodeMap" where
  "moveStoreyToBuilding storeyId targetBuildingId prev =
     (case map_of prev storeyId of
        None \<Rightarrow> prev
      | Some s \<Rightarrow>
          if kind s \<noteq> Storey then prev
          else (case map_of prev targetBuildingId of
                  None \<Rightarrow> prev
                | Some targetBuilding \<Rightarrow>
                    if kind targetBuilding \<noteq> Building then prev
                    else if parentId s = Some targetBuildingId then prev
                    else AList.update storeyId (s\<lparr>parentId := Some targetBuildingId\<rparr>)
                           (attachToParent storeyId targetBuildingId
                              (detachFromParent storeyId (parentId s) prev))))"

text \<open>
  JavaScript truthiness of an optional string, the parent id stored at a key, and the two
  edits of a children list that the moves perform.
\<close>

definition truthy :: "string option \<Rightarrow> bool" where
  "truthy v = (case v of None \<Rightarrow> False | Some x \<Rightarrow> x \<noteq> [])"

definition parent_of :: "NodeMap \<Rightarrow> string \<Rightarrow> string option" where
  "parent_of m k = Option.bind (map_of m k) parentId"

definition without :: "string \<Rightarrow> TreeNode \<Rightarrow> TreeNode" where
  "without c p = p\<lparr>children := filter (\<lambda>x. x \<noteq> c) (children p)\<rparr>"

definition with_child :: "string \<Rightarrow> TreeNode \<Rightarrow> TreeNode" where
  "with_child c p = p\<lparr>children := children p @ [c]\<rparr>"

definition moveObjectToGroup :: "string \<Rightarrow> string \<Rightarrow> NodeMap \<Rightarrow> NodeMap" where
  "moveObjectToGroup objectId targetGroupId prev =
     (case map_of prev objectId of
        None \<Rightarrow> prev
      | Some obj \<Rightarrow>
          if kind obj \<noteq> Object then prev
          else (case map_of prev targetGroupId of
                  None \<Rightarrow> prev
                | Some targetGroup \<Rightarrow>
                    if kind targetGroup \<noteq> ClassGroup then prev
                    else (case parentId obj of
                            None \<Rightarrow> prev
                          | Some oldGroupId \<Rightarrow>
                              if oldGroupId = [] then prev
                              else
                                (let next1 =
                                   (case map_of prev oldGroupId of
                                      None \<Rightarrow> prev
                                    | Some oldGroup \<Rightarrow>
                                        if kind oldGroup = ClassGroup
                                        then AList.update oldGroupId
                                               (oldGroup\<lparr>children :=
                                                  filter (\<lambda>c. c \<noteq> objectId) (children oldGroup)\<rparr>) prev
                                        else prev);
                                     next2 = AList.update targetGroupId
                                        (targetGroup\<lparr>children := children targetGroup @ [objectId]\<rparr>) next1
                                 in AList.update objectId
                                      (obj\<lparr>parentId := Some targetGroupId,
                                           ifcClass := ifcClass targetGroup\<rparr>) next2))))"

text \<open>Snapshots for the concrete cases below.\<close>

definition orphan_snapshot :: NodeMap where
  "orphan_snapshot =
     [(''g'', bare ''g'' ClassGroup None []), (''o'', bare ''o'' Object None [])]"

definition two_sites :: NodeMap where
  "two_sites =
     [(''s1'', bare ''s1'' Site None [''b'', ''c'']),
      (''s2'', bare ''s2'' Site None []),
      (''b'', bare ''b'' Building (Some ''s1'') [])]"

section \<open>Strings\<close>

definition digitChar :: "nat \<Rightarrow> char" where
  "digitChar n = ''0123456789'' ! (n mod 10)"

fun show_nat :: "nat \<Rightarrow> string" where
  "show_nat n = (if n < 10 then [digitChar n] else show_nat (n div 10) @ [digitChar n])"

declare show_nat.simps [simp del]

definition show_int :: "int \<Rightarrow> string" where
  "show_int i = (if i < 0 then ''-'' @ show_nat (nat (- i)) else show_nat (nat i))"

definition is_space :: "char \<Rightarrow> bool" where
  "is_space c = (c \<in> set [CHR 0x09, CHR 0x0A, CHR 0x0B, CHR 0x0C, CHR 0x0D, CHR 0x20])"

definition trim :: "string \<Rightarrow> string" where
  "trim v = rev (dropWhile is_space (rev (dropWhile is_space v)))"

definition upperChar :: "char \<Rightarrow> char" where
  "upperChar c = (let k = of_char c :: nat in if 97 \<le> k \<and> k \<le> 122 then char_of (k - 32) else c)"

definition lowerChar :: "char \<Rightarrow> char" where
  "lowerChar c = (let k = of_char c :: nat in if 65 \<le> k \<and> k \<le> 90 then char_of (k + 32) else c)"

definition toUpperCase :: "string \<Rightarrow> string" where
  "toUpperCase v = map upperChar v"

definition toLowerCase :: "string \<Rightarrow> string" where
  "toLowerCase v = map lowerChar v"

definition startsWith :: "string \<Rightarrow> string \<Rightarrow> bool" where
  "startsWith v p = (take (length p) v = p)"

definition join :: "string \<Rightarrow> string list \<Rightarrow> string" where
  "join sep xs = (case xs of [] \<Rightarrow> [] | y # ys \<Rightarrow> y @ concat (map (\<lambda>z. sep @ z) ys))"

section \<open>Identifier codec (exportIfc2x3.ts)\<close>

datatype error = Error string

definition uuid_error :: error where
  "uuid_error = Error ''UUID must be 32 hex chars''"

definition missing_project_error :: error where
  "missing_project_error = Error ''No Project node found (kind=Project or id='project').''"

definition chars :: string where
  "chars = ''0123456789ABCDEFGHIJKLMNOPQRSTUVWXYZabcdefghijklmnopqrstuvwxyz_$''"

definition toBase64Chars :: "nat \<Rightarrow> string" where
  "toBase64Chars n = (if n < length chars then [chars ! n] else ''0'')"

definition hexval :: "char \<Rightarrow> nat option" where
  "hexval c =
     (let k = of_char c :: nat
      in if 48 \<le> k \<and> k \<le> 57 then Some (k - 48)
         else if 97 \<le> k \<and> k \<le> 102 then Some (k - 87)
         else if 65 \<le> k \<and> k \<le> 70 then Some (k - 55)
         else None)"

text \<open>
  \<^verbatim>\<open>parseInt(str, 16)\<close>: leading white space, an optional sign, an optional \<^verbatim>\<open>0x\<close>, then the
  longest run of hexadecimal digits; \<open>None\<close> is \<^verbatim>\<open>NaN\<close>.
\<close>

definition parseInt16 :: "string \<Rightarrow> int option" where
  "parseInt16 str =
     (let s1 = dropWhile is_space str;
          neg = (case s1 of [] \<Rightarrow> False | c # _ \<Rightarrow> c = CHR ''-'');
          s2 = (case s1 of [] \<Rightarrow> s1 | c # r \<Rightarrow> if c = CHR ''+'' \<or> c = CHR ''-'' then r else s1);
          s3 = (case s2 of
                  a # b # r \<Rightarrow> if a = CHR ''0'' \<and> (b = CHR ''x'' \<or> b = CHR ''X'') then r else s2
                | _ \<Rightarrow> s2);
          ds = takeWhile (\<lambda>c. hexval c \<noteq> None) s3;
          v = foldl (\<lambda>a c. 16 * a + (case hexval c of None \<Rightarrow> 0 | Some d \<Rightarrow> d)) 0 ds
      in if ds = [] then None else Some (if neg then - int v else int v))"

text \<open>Storing into a \<^verbatim>\<open>Uint8Array\<close>: \<^verbatim>\<open>NaN\<close> becomes 0, an integer is taken modulo 256.\<close>

definition toUint8 :: "int option \<Rightarrow> 8 word" where
  "toUint8 v = (case v of None \<Rightarrow> 0 | Some i \<Rightarrow> word_of_int i)"

definition ifcGuidFromUuid :: "string \<Rightarrow> error + string" where
  "ifcGuidFromUuid uuid =
     (let hex = filter (\<lambda>c. c \<noteq> CHR ''-'') uuid
      in if length hex \<noteq> 32 then Inl uuid_error
         else
           (let bytes = map (\<lambda>i. toUint8 (parseInt16 (take 2 (drop (i * 2) hex)))) [0..<16];
                num = foldl (\<lambda>a b. a * 256 + uint b) (0::int) bytes
            in Inr (concat (map (\<lambda>i. toBase64Chars (nat ((num div 2 ^ ((21 - i) * 6)) mod 64)))
                      [0..<22]))))"

definition hexDigit :: "nat \<Rightarrow> char" where
  "hexDigit n = ''0123456789abcdef'' ! (n mod 16)"

definition byteHex :: "8 word \<Rightarrow> string" where
  "byteHex b = [hexDigit (unat b div 16), hexDigit (unat b mod 16)]"

text \<open>\<^verbatim>\<open>uuidv4\<close>, as a function of the 16 bytes that \<^verbatim>\<open>crypto.getRandomValues\<close> delivers.\<close>

definition uuidv4 :: "(nat \<Rightarrow> 8 word) \<Rightarrow> string" where
  "uuidv4 rnd =
     (let buf0 = map rnd [0..<16];
          buf1 = buf0[6 := (buf0 ! 6 AND 0x0f) OR 0x40];
          buf = buf1[8 := (buf1 ! 8 AND 0x3f) OR 0x80];
          hex = concat (map byteHex buf)
      in take 8 hex @ ''-'' @ take 4 (drop 8 hex) @ ''-'' @ take 4 (drop 12 hex) @ ''-''
         @ take 4 (drop 16 hex) @ ''-'' @ drop 20 hex)"

section \<open>Exporter (exportIfc2x3.ts)\<close>

definition quote :: string where
  "quote = [CHR 0x27]"

definition newline :: string where
  "newline = [CHR 0x0A]"

definition escape :: "string \<Rightarrow> string" where
  "escape v =
     concat (map (\<lambda>c. if c = CHR 0x5C then [CHR 0x5C, CHR 0x5C]
                      else if c = CHR 0x27 then [CHR 0x27, CHR 0x27] else [c]) v)"

definition s :: "string \<Rightarrow> string" where
  "s v = (if v = [] then ''$'' else quote @ escape v @ quote)"

definition s_opt :: "string option \<Rightarrow> string" where
  "s_opt v = (case v of None \<Rightarrow> ''$'' | Some x \<Rightarrow> s x)"

definition is_digit :: "char \<Rightarrow> bool" where
  "is_digit c = (let k = of_char c :: nat in 48 \<le> k \<and> k \<le> 57)"

text \<open>The regular expression \<^verbatim>\<open>/^-?\d+(\.\d+)?$/\<close>.\<close>

definition isNumeric :: "string \<Rightarrow> bool" where
  "isNumeric raw =
     (let r1 = (case raw of [] \<Rightarrow> raw | c # r \<Rightarrow> if c = CHR ''-'' then r else raw);
          ip = takeWhile is_digit r1;
          rest = dropWhile is_digit r1
      in ip \<noteq> [] \<and>
         (case rest of [] \<Rightarrow> True
          | c # fr \<Rightarrow> c = CHR ''.'' \<and> fr \<noteq> [] \<and> list_all is_digit fr))"

text \<open>
  What the exporter takes from its environment: the bytes of the \<open>k\<close>-th call of
  \<^verbatim>\<open>crypto.getRandomValues\<close>, the clock (\<^verbatim>\<open>Math.floor(Date.now() / 1000)\<close> and the text of
  \<^verbatim>\<open>nowIso()\<close>), and the text of \<^verbatim>\<open>Number(raw)\<close> in a template string, which is floating
  point formatting and is not modelled further.
\<close>

record Env =
  randomBytes :: "nat \<Rightarrow> nat \<Rightarrow> 8 word"
  nowEpoch :: int
  nowIso :: string
  numberText :: "string \<Rightarrow> string"

definition ifcValue :: "Env \<Rightarrow> string \<Rightarrow> string" where
  "ifcValue env v =
     (let raw = trim v
      in if raw = [] then ''$''
         else if toLowerCase raw = ''true'' then ''IFCBOOLEAN(.T.)''
         else if toLowerCase raw = ''false'' then ''IFCBOOLEAN(.F.)''
         else if isNumeric raw then
           (if CHR ''.'' \<in> set raw then ''IFCREAL('' @ numberText env raw @ '')''
            else ''IFCINTEGER('' @ numberText env raw @ '')'')
         else ''IFCTEXT('' @ quote @ escape raw @ quote @ '')'')"

text \<open>
  The \<^verbatim>\<open>IfcWriter\<close> (\<open>nextId\<close>, \<open>lines\<close>) together with the rest of the mutable state of one
  export: the number of random draws made so far and the map \<^verbatim>\<open>nodeToIfcId\<close>.
\<close>

record ExportSt =
  nextId :: nat
  lines :: "(nat \<times> string) list"
  draws :: nat
  nodeToIfcId :: "string \<Rightarrow> nat option"

definition initialSt :: ExportSt where
  "initialSt = \<lparr> nextId = 1, lines = [], draws = 0, nodeToIfcId = (\<lambda>_. None) \<rparr>"

definition add :: "string \<Rightarrow> ExportSt \<Rightarrow> nat \<times> ExportSt" where
  "add text st =
     (nextId st,
      st\<lparr>nextId := nextId st + 1,
         lines := lines st @ [(nextId st, ''#'' @ show_nat (nextId st) @ ''='' @ text @ '';'')]\<rparr>)"

text \<open>A number in a template string; \<open>None\<close> is \<^verbatim>\<open>undefined\<close>.\<close>

definition num :: "nat option \<Rightarrow> string" where
  "num v = (case v of None \<Rightarrow> ''undefined'' | Some n \<Rightarrow> show_nat n)"

definition refs :: "nat list \<Rightarrow> string" where
  "refs ids = join '','' (map (\<lambda>i. ''#'' @ show_nat i) ids)"

definition out :: "ExportSt \<Rightarrow> string" where
  "out st = join newline (map snd (lines st))"

definition ifcGuid :: "Env \<Rightarrow> ExportSt \<Rightarrow> error + (string \<times> ExportSt)" where
  "ifcGuid env st =
     (case ifcGuidFromUuid (uuidv4 (randomBytes env (draws st))) of
        Inl e \<Rightarrow> Inl e
      | Inr g \<Rightarrow> Inr (g, st\<lparr>draws := draws st + 1\<rparr>))"

text \<open>\<^verbatim>\<open>w.add(`...${ifcGuid()}...`)\<close>: the identifier is drawn while the text is built.\<close>

definition addG :: "Env \<Rightarrow> (string \<Rightarrow> string) \<Rightarrow> ExportSt \<Rightarrow> error + (nat \<times> ExportSt)" where
  "addG env f st =
     (case ifcGuid env st of
        Inl e \<Rightarrow> Inl e
      | Inr r \<Rightarrow> Inr (add (f (fst r)) (snd r)))"

definition createLocalPlacement :: "nat option \<Rightarrow> ExportSt \<Rightarrow> nat \<times> ExportSt" where
  "createLocalPlacement relativeTo st =
     (let r1 = add ''IFCCARTESIANPOINT((0.,0.,0.))'' st;
          r2 = add (''IFCAXIS2PLACEMENT3D(#'' @ show_nat (fst r1) @ '',$,$)'') (snd r1)
      in add (''IFCLOCALPLACEMENT(#'' @ num relativeTo @ '',#'' @ show_nat (fst r2) @ '')'')
           (snd r2))"

definition register :: "TreeNode \<Rightarrow> nat \<times> ExportSt \<Rightarrow> nat \<times> ExportSt" where
  "register node r = (fst r, (snd r)\<lparr>nodeToIfcId := (nodeToIfcId (snd r))(id' node \<mapsto> fst r)\<rparr>)"

definition createSite :: "Env \<Rightarrow> nat \<Rightarrow> TreeNode \<Rightarrow> nat option \<Rightarrow> ExportSt \<Rightarrow> error + (nat \<times> ExportSt)" where
  "createSite env ownerHistory node parentPlacement st =
     (let p = createLocalPlacement parentPlacement st
      in map_sum id (register node)
           (addG env (\<lambda>g. ''IFCSITE('' @ quote @ g @ quote @ '',#'' @ show_nat ownerHistory @ '',''
                @ s (name node) @ '',$,$,#'' @ show_nat (fst p) @ '',$,$,.ELEMENT.,$,$,$,$,$)'')
              (snd p)))"

definition createBuilding :: "Env \<Rightarrow> nat \<Rightarrow> TreeNode \<Rightarrow> nat option \<Rightarrow> ExportSt \<Rightarrow> error + (nat \<times> ExportSt)" where
  "createBuilding env ownerHistory node parentPlacement st =
     (let p = createLocalPlacement parentPlacement st
      in map_sum id (register node)
           (addG env (\<lambda>g. ''IFCBUILDING('' @ quote @ g @ quote @ '',#'' @ show_nat ownerHistory @ '',''
                @ s (name node) @ '',$,$,#'' @ show_nat (fst p) @ '',$,$,.ELEMENT.,$,$,$)'')
              (snd p)))"

definition createStorey :: "Env \<Rightarrow> nat \<Rightarrow> TreeNode \<Rightarrow> nat option \<Rightarrow> ExportSt \<Rightarrow> error + (nat \<times> ExportSt)" where
  "createStorey env ownerHistory node parentPlacement st =
     (let p = createLocalPlacement parentPlacement st
      in map_sum id (register node)
           (addG env (\<lambda>g. ''IFCBUILDINGSTOREY('' @ quote @ g @ quote @ '',#'' @ show_nat ownerHistory
                @ '','' @ s (name node) @ '',$,$,#'' @ show_nat (fst p) @ '',$,$,.ELEMENT.,$)'')
              (snd p)))"

definition createRelAggregates :: "Env \<Rightarrow> nat \<Rightarrow> nat \<Rightarrow> nat list \<Rightarrow> ExportSt \<Rightarrow> error + ExportSt" where
  "createRelAggregates env ownerHistory parentIfc childrenIfc st =
     (if childrenIfc = [] then Inr st
      else map_sum id snd
             (addG env (\<lambda>g. ''IFCRELAGGREGATES('' @ quote @ g @ quote @ '',#'' @ show_nat ownerHistory
                  @ '',$,$,#'' @ show_nat parentIfc @ '',('' @ refs childrenIfc @ ''))'') st))"

text \<open>\<^verbatim>\<open>ids.map((id) => nodes[id]).filter(Boolean).filter((n) => n.kind === k)\<close>.\<close>

definition childNodes :: "NodeMap \<Rightarrow> NodeKind \<Rightarrow> string list \<Rightarrow> TreeNode list" where
  "childNodes nodes k ids = filter (\<lambda>n. kind n = k) (List.map_filter (map_of nodes) ids)"

text \<open>
  The three nested loops of the spatial walk.  Each loop carries the list of entity
  numbers collected so far and the state; an error ends the walk.
\<close>

fun storeyLoop ::
  "Env \<Rightarrow> nat \<Rightarrow> TreeNode \<Rightarrow> TreeNode list \<Rightarrow> nat list \<Rightarrow> ExportSt \<Rightarrow> error + (nat list \<times> ExportSt)"
where
  "storeyLoop env oh bNode [] ifcStoreys st = Inr (ifcStoreys, st)"
| "storeyLoop env oh bNode (stNode # rest) ifcStoreys st =
     (case createStorey env oh stNode (nodeToIfcId st (id' bNode)) st of
        Inl e \<Rightarrow> Inl e
      | Inr r \<Rightarrow> storeyLoop env oh bNode rest (ifcStoreys @ [fst r]) (snd r))"

fun buildingLoop ::
  "Env \<Rightarrow> nat \<Rightarrow> NodeMap \<Rightarrow> TreeNode \<Rightarrow> TreeNode list \<Rightarrow> nat list \<Rightarrow> ExportSt
     \<Rightarrow> error + (nat list \<times> ExportSt)"
where
  "buildingLoop env oh nodes sNode [] ifcBuildings st = Inr (ifcBuildings, st)"
| "buildingLoop env oh nodes sNode (bNode # rest) ifcBuildings st =
     (case createBuilding env oh bNode (nodeToIfcId st (id' sNode)) st of
        Inl e \<Rightarrow> Inl e
      | Inr r \<Rightarrow>
          (case storeyLoop env oh bNode (childNodes nodes Storey (children bNode)) [] (snd r) of
             Inl e \<Rightarrow> Inl e
           | Inr r2 \<Rightarrow>
               (case createRelAggregates env oh (fst r) (fst r2) (snd r2) of
                  Inl e \<Rightarrow> Inl e
                | Inr st3 \<Rightarrow> buildingLoop env oh nodes sNode rest (ifcBuildings @ [fst r]) st3)))"

fun siteLoop ::
  "Env \<Rightarrow> nat \<Rightarrow> NodeMap \<Rightarrow> nat \<Rightarrow> TreeNode list \<Rightarrow> nat list \<Rightarrow> ExportSt
     \<Rightarrow> error + (nat list \<times> ExportSt)"
where
  "siteLoop env oh nodes worldPlacement [] ifcSites st = Inr (ifcSites, st)"
| "siteLoop env oh nodes worldPlacement (sNode # rest) ifcSites st =
     (case createSite env oh sNode (Some worldPlacement) st of
        Inl e \<Rightarrow> Inl e
      | Inr r \<Rightarrow>
          (case buildingLoop env oh nodes sNode (childNodes nodes Building (children sNode)) []
                  (snd r) of
             Inl e \<Rightarrow> Inl e
           | Inr r2 \<Rightarrow>
               (case createRelAggregates env oh (fst r) (fst r2) (snd r2) of
                  Inl e \<Rightarrow> Inl e
                | Inr st3 \<Rightarrow> siteLoop env oh nodes worldPlacement rest (ifcSites @ [fst r]) st3)))"

definition getObjectsUnderStorey :: "NodeMap \<Rightarrow> TreeNode \<Rightarrow> TreeNode list" where
  "getObjectsUnderStorey nodes storeyNode =
     concat (map (\<lambda>cgId.
        case map_of nodes cgId of
          None \<Rightarrow> []
        | Some cg \<Rightarrow>
            if kind cg \<noteq> ClassGroup then []
            else childNodes nodes Object (children cg))
       (children storeyNode))"

definition IFC2X3_SAFE_ENTITIES :: "string list" where
  "IFC2X3_SAFE_ENTITIES =
     [''IFCBUILDINGELEMENTPROXY'', ''IFCVALVE'', ''IFCPUMP'', ''IFCTANK'', ''IFCPIPESEGMENT'',
      ''IFCPIPEFITTING'', ''IFCFLOWMETER'', ''IFCACTUATOR'', ''IFCSENSOR'',
      ''IFCCABLECARRIERSEGMENT'']"

definition normalizeEntityName :: "string option \<Rightarrow> string" where
  "normalizeEntityName c =
     (let raw = trim (case c of None \<Rightarrow> [] | Some x \<Rightarrow> x)
      in if raw = [] then ''IFCBUILDINGELEMENTPROXY''
         else (let ent = toUpperCase raw
               in if \<not> startsWith ent ''IFC'' then ''IFCBUILDINGELEMENTPROXY''
                  else if ent \<in> set IFC2X3_SAFE_ENTITIES then ent
                  else ''IFCBUILDINGELEMENTPROXY''))"

definition emitElement :: "Env \<Rightarrow> nat \<Rightarrow> string \<Rightarrow> TreeNode \<Rightarrow> nat \<Rightarrow> ExportSt \<Rightarrow> error + (nat \<times> ExportSt)" where
  "emitElement env ownerHistory entity obj placementRef st =
     addG env (\<lambda>g. entity @ ''('' @ quote @ g @ quote @ '',#'' @ show_nat ownerHistory @ '',''
          @ s (name obj) @ '',$,'' @ s_opt (ifcClass obj) @ '',#'' @ show_nat placementRef
          @ '',$,'' @ s_opt (tag obj) @ '')'') st"

fun addProps :: "Env \<Rightarrow> (string \<times> string) list \<Rightarrow> nat list \<Rightarrow> ExportSt \<Rightarrow> nat list \<times> ExportSt" where
  "addProps env [] propIds st = (propIds, st)"
| "addProps env (kv # rest) propIds st =
     (let r = add (''IFCPROPERTYSINGLEVALUE('' @ s (fst kv) @ '',$,'' @ ifcValue env (snd kv)
                   @ '',$)'') st
      in addProps env rest (propIds @ [fst r]) (snd r))"

fun addPsets :: "Env \<Rightarrow> nat \<Rightarrow> nat \<Rightarrow> Pset list \<Rightarrow> ExportSt \<Rightarrow> error + ExportSt" where
  "addPsets env oh elementIfcId [] st = Inr st"
| "addPsets env oh elementIfcId (pset # rest) st =
     (let psetName = trim (pset_name pset);
          entries = filter (\<lambda>kv. trim (fst kv) \<noteq> []) (props pset)
      in if psetName = [] \<or> entries = [] then addPsets env oh elementIfcId rest st
         else
           (let r = addProps env entries [] st
            in case addG env (\<lambda>g. ''IFCPROPERTYSET('' @ quote @ g @ quote @ '',#'' @ show_nat oh
                        @ '','' @ s psetName @ '',$,('' @ refs (fst r) @ ''))'') (snd r) of
                 Inl e \<Rightarrow> Inl e
               | Inr r2 \<Rightarrow>
                   (case addG env (\<lambda>g. ''IFCRELDEFINESBYPROPERTIES('' @ quote @ g @ quote @ '',#''
                            @ show_nat oh @ '',$,$,(#'' @ show_nat elementIfcId @ ''),#''
                            @ show_nat (fst r2) @ '')'') (snd r2) of
                      Inl e \<Rightarrow> Inl e
                    | Inr r3 \<Rightarrow> addPsets env oh elementIfcId rest (snd r3))))"

definition addPsetsForElement :: "Env \<Rightarrow> nat \<Rightarrow> nat \<Rightarrow> TreeNode \<Rightarrow> ExportSt \<Rightarrow> error + ExportSt" where
  "addPsetsForElement env oh elementIfcId obj st =
     addPsets env oh elementIfcId (case psets obj of None \<Rightarrow> [] | Some ps \<Rightarrow> ps) st"

fun objectLoop ::
  "Env \<Rightarrow> nat \<Rightarrow> nat \<Rightarrow> TreeNode list \<Rightarrow> nat list \<Rightarrow> ExportSt \<Rightarrow> error + (nat list \<times> ExportSt)"
where
  "objectLoop env oh ifcStorey [] elementIfcIds st = Inr (elementIfcIds, st)"
| "objectLoop env oh ifcStorey (obj # rest) elementIfcIds st =
     (let p = createLocalPlacement (Some ifcStorey) st
      in case emitElement env oh (normalizeEntityName (ifcClass obj)) obj (fst p) (snd p) of
           Inl e \<Rightarrow> Inl e
         | Inr r \<Rightarrow>
             (case addPsetsForElement env oh (fst r) obj (snd r) of
                Inl e \<Rightarrow> Inl e
              | Inr st2 \<Rightarrow> objectLoop env oh ifcStorey rest (elementIfcIds @ [fst r]) st2))"

text \<open>
  The loop over \<^verbatim>\<open>storeyNodesAll\<close>.  A storey without an entry in \<^verbatim>\<open>nodeToIfcId\<close> is
  skipped (the entity number 0 would be falsy as well), and so is one without objects.
\<close>

fun elementLoop :: "Env \<Rightarrow> nat \<Rightarrow> NodeMap \<Rightarrow> TreeNode list \<Rightarrow> ExportSt \<Rightarrow> error + ExportSt" where
  "elementLoop env oh nodes [] st = Inr st"
| "elementLoop env oh nodes (stNode # rest) st =
     (case nodeToIfcId st (id' stNode) of
        None \<Rightarrow> elementLoop env oh nodes rest st
      | Some ifcStorey \<Rightarrow>
          if ifcStorey = 0 \<or> getObjectsUnderStorey nodes stNode = []
          then elementLoop env oh nodes rest st
          else
            (case objectLoop env oh ifcStorey (getObjectsUnderStorey nodes stNode) [] st of
               Inl e \<Rightarrow> Inl e
             | Inr r \<Rightarrow>
                 (case addG env (\<lambda>g. ''IFCRELCONTAINEDINSPATIALSTRUCTURE('' @ quote @ g @ quote
                          @ '',#'' @ show_nat oh @ '',$,$,('' @ refs (fst r) @ ''),#''
                          @ show_nat ifcStorey @ '')'') (snd r) of
                    Inl e \<Rightarrow> Inl e
                  | Inr r2 \<Rightarrow> elementLoop env oh nodes rest (snd r2))))"

text \<open>
  \<^verbatim>\<open>Object.values(nodes).find((n) => n.kind === "Project") ?? nodes["project"]\<close>.
\<close>

definition findProject :: "NodeMap \<Rightarrow> TreeNode option" where
  "findProject nodes =
     (case find (\<lambda>n. kind n = Project) (map snd nodes) of
        Some p \<Rightarrow> Some p
      | None \<Rightarrow> map_of nodes ''project'')"

text \<open>
  The records that open every export (\<^verbatim>\<open>// --- minimal "common" objects ---\<close>); the
  result holds the entity numbers \<^verbatim>\<open>ownerHistory\<close>, \<^verbatim>\<open>worldPlacement\<close>, \<^verbatim>\<open>context\<close> and
  \<^verbatim>\<open>units\<close>.
\<close>

definition commonObjects :: "Env \<Rightarrow> (nat \<times> nat \<times> nat \<times> nat) \<times> ExportSt" where
  "commonObjects env =
     (let r1 = add (''IFCOWNERHISTORY($,$,$,.ADDED.,'' @ show_int (nowEpoch env) @ '',$,$,''
                    @ show_int (nowEpoch env) @ '')'') initialSt;
          r2 = add ''IFCCARTESIANPOINT((0.,0.,0.))'' (snd r1);
          r3 = add (''IFCAXIS2PLACEMENT3D(#'' @ show_nat (fst r2) @ '',$,$)'') (snd r2);
          r4 = add (''IFCLOCALPLACEMENT($,#'' @ show_nat (fst r3) @ '')'') (snd r3);
          r5 = add (''IFCGEOMETRICREPRESENTATIONCONTEXT($,'' @ quote @ ''Model'' @ quote
                    @ '',3,1.0E-5,#'' @ show_nat (fst r3) @ '',$)'') (snd r4);
          r6 = add ''IFCSIUNIT($,.LENGTHUNIT.,$,.METRE.)'' (snd r5);
          r7 = add (''IFCUNITASSIGNMENT((#'' @ show_nat (fst r6) @ ''))'') (snd r6)
      in ((fst r1, fst r4, fst r5, fst r7), snd r7))"

text \<open>The spatial structure below the selected project, then its aggregation record.\<close>

definition spatialStructure ::
  "Env \<Rightarrow> nat \<Rightarrow> nat \<Rightarrow> NodeMap \<Rightarrow> TreeNode \<Rightarrow> nat \<Rightarrow> ExportSt \<Rightarrow> error + ExportSt"
where
  "spatialStructure env ownerHistory worldPlacement nodes project ifcProject st =
     (case siteLoop env ownerHistory nodes worldPlacement
             (childNodes nodes Site (children project)) [] st of
        Inl e \<Rightarrow> Inl e
      | Inr r \<Rightarrow> createRelAggregates env ownerHistory ifcProject (fst r) (snd r))"

text \<open>The project record; its entity number is registered under the project's id.\<close>

definition createProject ::
  "Env \<Rightarrow> nat \<Rightarrow> nat \<Rightarrow> nat \<Rightarrow> TreeNode \<Rightarrow> ExportSt \<Rightarrow> error + (nat \<times> ExportSt)"
where
  "createProject env ownerHistory context units project st =
     map_sum id (register project)
       (addG env (\<lambda>g. ''IFCPROJECT('' @ quote @ g @ quote @ '',#'' @ show_nat ownerHistory
            @ '','' @ s (name project) @ '',$,$,$,$,(#'' @ show_nat context @ ''),#''
            @ show_nat units @ '')'') st)"

text \<open>The records of the data section, in emission order.\<close>

definition exportBody :: "Env \<Rightarrow> NodeMap \<Rightarrow> error + ExportSt" where
  "exportBody env nodes =
     (case findProject nodes of
        None \<Rightarrow> Inl missing_project_error
      | Some project \<Rightarrow>
          (case commonObjects env of
             ((ownerHistory, worldPlacement, context, units), st7) \<Rightarrow>
               (case createProject env ownerHistory context units project st7 of
                  Inl e \<Rightarrow> Inl e
                | Inr r8 \<Rightarrow>
                    (case spatialStructure env ownerHistory worldPlacement nodes project (fst r8)
                            (snd r8) of
                       Inl e \<Rightarrow> Inl e
                     | Inr st10 \<Rightarrow>
                         elementLoop env ownerHistory nodes
                           (filter (\<lambda>n. kind n = Storey) (map snd nodes)) st10))))"

definition header :: "Env \<Rightarrow> string \<Rightarrow> string" where
  "header env fileName =
     ''ISO-10303-21;'' @ newline @ ''HEADER;'' @ newline
     @ ''FILE_DESCRIPTION(('' @ quote @ ''ViewDefinition [CoordinationView]'' @ quote @ ''),''
     @ quote @ ''2;1'' @ quote @ '');'' @ newline
     @ ''FILE_NAME('' @ s fileName @ '','' @ s (nowIso env) @ '',('' @ quote @ ''IFC-Coordinator''
     @ quote @ ''),('' @ quote @ ''Viktor Knaub'' @ quote @ ''),'' @ quote @ ''IFC-Coordinator''
     @ quote @ '','' @ quote @ ''IFC-Coordinator'' @ quote @ '','' @ quote @ quote @ '');''
     @ newline @ ''FILE_SCHEMA(('' @ quote @ ''IFC2X3'' @ quote @ ''));'' @ newline
     @ ''ENDSEC;'' @ newline @ ''DATA;''"

definition footer :: string where
  "footer = ''ENDSEC;'' @ newline @ ''END-ISO-10303-21;''"

definition exportIfc2x3FromTree :: "Env \<Rightarrow> NodeMap \<Rightarrow> string \<Rightarrow> error + string" where
  "exportIfc2x3FromTree env nodes fileName =
     map_sum id (\<lambda>st. header env fileName @ newline @ out st @ newline @ footer)
       (exportBody env nodes)"

definition env0 :: Env where
  "env0 = \<lparr> randomBytes = (\<lambda>k i. 0), nowEpoch = 0, nowIso = ''2026-01-01T00:00:00'',
     numberText = (\<lambda>raw. raw) \<rparr>"

text \<open>
  The identifier of the \<open>k\<close>-th draw (the codec never fails on the output of \<^verbatim>\<open>uuidv4\<close>,
  see \<open>ifcGuid_eq\<close> below).
\<close>

definition guidOf :: "Env \<Rightarrow> nat \<Rightarrow> string" where
  "guidOf env k = (case ifcGuidFromUuid (uuidv4 (randomBytes env k)) of Inl e \<Rightarrow> [] | Inr g \<Rightarrow> g)"

text \<open>
  The storeys that the spatial walk reaches from the selected project: the Storey children
  of the Building children of its Site children.
\<close>

definition reachedStoreys :: "NodeMap \<Rightarrow> TreeNode \<Rightarrow> TreeNode list" where
  "reachedStoreys nodes project =
     concat (map (\<lambda>sn. concat (map (\<lambda>b. childNodes nodes Storey (children b))
                                 (childNodes nodes Building (children sn))))
               (childNodes nodes Site (children project)))"

text \<open>Reading a data section back: the record keyword of each line.\<close>

definition entityName :: "string \<Rightarrow> string" where
  "entityName line = takeWhile (\<lambda>c. c \<noteq> CHR ''('') (drop 1 (dropWhile (\<lambda>c. c \<noteq> CHR ''='') line))"

definition entityNames :: "ExportSt \<Rightarrow> string list" where
  "entityNames st = map (\<lambda>l. entityName (snd l)) (lines st)"

definition project_by_id :: NodeMap where
  "project_by_id = [(''project'', bare ''project'' Site None [])]"

definition storey_as_project :: NodeMap where
  "storey_as_project =
     [(''project'', bare ''project'' Storey None [''g'']),
      (''g'', bare ''g'' ClassGroup (Some ''project'') [''o'']),
      (''o'', bare ''o'' Object (Some ''g'') [])]"

definition detached_storey :: NodeMap where
  "detached_storey =
     [(''p'', bare ''p'' Project None [''s'']),
      (''s'', bare ''s'' Site (Some ''p'') [''b'']),
      (''b'', bare ''b'' Building (Some ''s'') [''st'']),
      (''st'', bare ''st'' Storey (Some ''b'') []),
      (''x'', bare ''x'' Storey None [''g'']),
      (''g'', bare ''g'' ClassGroup (Some ''x'') [''o'']),
      (''o'', bare ''o'' Object (Some ''g'') [])]"

section \<open>Importer (importIfc.ts)\<close>

text \<open>
  The external hierarchy \<^verbatim>\<open>SpatialNode\<close> and the attribute source.  The four
  \<^verbatim>\<open>safeGet...\<close> helpers turn a failing or empty lookup into \<^verbatim>\<open>undefined\<close> (the empty list
  for property sets); the manager record holds what they return for a model id and an
  express id, so every visit of the same element sees the same attributes.  The
  conversion of raw property sets by \<^verbatim>\<open>asStringValue\<close> works on untyped values and is not
  modelled.  The comparison \<^verbatim>\<open>localeCompare\<close> used to sort merged property sets is a
  parameter, too.
\<close>

datatype SpatialNode = SpatialNode (sp_expressID: nat) (sp_type: string) (sp_children: "SpatialNode list")

record IfcManager =
  getSpatialStructure :: "nat \<Rightarrow> SpatialNode option"
  safeGetGlobalId :: "nat \<Rightarrow> nat \<Rightarrow> string option"
  safeGetName :: "nat \<Rightarrow> nat \<Rightarrow> string option"
  safeGetTag :: "nat \<Rightarrow> nat \<Rightarrow> string option"
  safeGetPsets :: "nat \<Rightarrow> nat \<Rightarrow> Pset list"
  localeCompare :: "string \<Rightarrow> string \<Rightarrow> int"

definition manager_error :: error where
  "manager_error = Error ''IfcManager not available: viewer.IFC.loader.ifcManager missing''"

definition ensureNode :: "string \<Rightarrow> TreeNode \<Rightarrow> NodeMap \<Rightarrow> NodeMap" where
  "ensureNode i fallback draft = (if has_key draft i then draft else AList.update i fallback draft)"

definition ensureChild :: "string \<Rightarrow> string \<Rightarrow> NodeMap \<Rightarrow> NodeMap" where
  "ensureChild pid childId draft =
     (case map_of draft pid of
        None \<Rightarrow> draft
      | Some p \<Rightarrow>
          if childId \<in> set (children p) then draft
          else AList.update pid (p\<lparr>children := children p @ [childId]\<rparr>) draft)"

text \<open>
  \<^verbatim>\<open>mergePsets\<close>: a \<^verbatim>\<open>Map\<close> keyed by set name, filled from the old sets and then from the new
  ones (a spread of two property objects keeps the keys of the first in place and appends
  the new keys of the second), then a stable sort by name.
\<close>

definition mergeProps :: "(string \<times> string) list \<Rightarrow> (string \<times> string) list \<Rightarrow> (string \<times> string) list" where
  "mergeProps old new = fold (\<lambda>kv acc. AList.update (fst kv) (snd kv) acc) new
     (fold (\<lambda>kv acc. AList.update (fst kv) (snd kv) acc) old [])"

fun insertBy :: "('a \<Rightarrow> 'a \<Rightarrow> int) \<Rightarrow> 'a \<Rightarrow> 'a list \<Rightarrow> 'a list" where
  "insertBy cmp x [] = [x]"
| "insertBy cmp x (y # ys) = (if cmp x y < 0 then x # y # ys else y # insertBy cmp x ys)"

definition sortBy :: "('a \<Rightarrow> 'a \<Rightarrow> int) \<Rightarrow> 'a list \<Rightarrow> 'a list" where
  "sortBy cmp xs = foldl (\<lambda>acc x. insertBy cmp x acc) [] xs"

definition mergePsets :: "(string \<Rightarrow> string \<Rightarrow> int) \<Rightarrow> Pset list \<Rightarrow> Pset list \<Rightarrow> Pset list" where
  "mergePsets cmp oldPsets newPsets =
     (let m0 = fold (\<lambda>p m. AList.update (pset_name p) (mergeProps [] (props p)) m) oldPsets [];
          m1 = fold (\<lambda>p m.
                 case map_of m (pset_name p) of
                   None \<Rightarrow> AList.update (pset_name p) (mergeProps [] (props p)) m
                 | Some cur \<Rightarrow> AList.update (pset_name p) (mergeProps cur (props p)) m)
               newPsets m0
      in sortBy (\<lambda>a b. cmp (pset_name a) (pset_name b))
           (map (\<lambda>e. \<lparr> pset_name = fst e, props = snd e \<rparr>) m1))"

text \<open>
  \<^verbatim>\<open>upsertNode\<close>.  In the merge, \<^verbatim>\<open>{ ...existing, ...node }\<close> takes \<^verbatim>\<open>id\<close> and \<^verbatim>\<open>kind\<close> from
  the incoming node, and \<^verbatim>\<open>parentId\<close> and \<^verbatim>\<open>ifc\<close> as well when the incoming literal has
  them (\<open>None\<close> stands for a property that the literal does not have).
\<close>

definition mergeNode :: "(string \<Rightarrow> string \<Rightarrow> int) \<Rightarrow> TreeNode \<Rightarrow> TreeNode \<Rightarrow> TreeNode" where
  "mergeNode cmp existing node =
     \<lparr> id' = id' node,
       kind = kind node,
       name = (if name existing \<noteq> [] then name existing else name node),
       parentId = (case parentId node of None \<Rightarrow> parentId existing | Some q \<Rightarrow> Some q),
       children = (if children existing \<noteq> [] then children existing else children node),
       ifcClass = (case ifcClass existing of None \<Rightarrow> ifcClass node | Some c \<Rightarrow> Some c),
       tag = (case tag existing of None \<Rightarrow> tag node | Some t \<Rightarrow> Some t),
       psets = Some (mergePsets cmp (case psets existing of None \<Rightarrow> [] | Some ps \<Rightarrow> ps)
                       (case psets node of None \<Rightarrow> [] | Some ps \<Rightarrow> ps)),
       ifc = (case ifc node of None \<Rightarrow> ifc existing | Some i \<Rightarrow> Some i) \<rparr>"

definition upsertNode :: "(string \<Rightarrow> string \<Rightarrow> int) \<Rightarrow> TreeNode \<Rightarrow> NodeMap \<Rightarrow> NodeMap" where
  "upsertNode cmp node draft =
     (case map_of draft (id' node) of
        None \<Rightarrow> AList.update (id' node) node draft
      | Some existing \<Rightarrow> AList.update (id' node) (mergeNode cmp existing node) draft)"

definition spatialKindFromIfcType :: "string \<Rightarrow> NodeKind option" where
  "spatialKindFromIfcType typeUpper =
     (if typeUpper = ''IFCPROJECT'' then Some Project
      else if typeUpper = ''IFCSITE'' then Some Site
      else if typeUpper = ''IFCBUILDING'' then Some Building
      else if typeUpper = ''IFCBUILDINGSTOREY'' then Some Storey
      else None)"

definition ifcClassForElement :: "string \<Rightarrow> string" where
  "ifcClassForElement typeUpper =
     (if typeUpper = ''IFCBUILDINGELEMENTPROXY'' then ''IfcBuildingElementProxy''
      else ''IfcBuildingElementProxy'')"

definition stableSpatialId :: "NodeKind \<Rightarrow> string option \<Rightarrow> nat \<Rightarrow> string" where
  "stableSpatialId k gid eid =
     (let key = (case gid of None \<Rightarrow> show_nat eid | Some g \<Rightarrow> g)
      in if k = Project then ''ifc:project:'' @ key
         else if k = Site then ''ifc:site:'' @ key
         else if k = Building then ''ifc:building:'' @ key
         else if k = Storey then ''ifc:storey:'' @ key
         else ''ifc:item:'' @ key)"

text \<open>A \<^verbatim>\<open>NodeKind\<close> is its own name as a string (\<^verbatim>\<open>name || kind\<close>).\<close>

definition kindName :: "NodeKind \<Rightarrow> string" where
  "kindName k =
     (case k of Root \<Rightarrow> ''Root'' | Project \<Rightarrow> ''Project'' | Site \<Rightarrow> ''Site''
      | Building \<Rightarrow> ''Building'' | Storey \<Rightarrow> ''Storey'' | ClassGroup \<Rightarrow> ''ClassGroup''
      | Object \<Rightarrow> ''Object'')"

text \<open>
  The pattern \<^verbatim>\<open>if (!draft[id]) { upsertNode(draft, node); ensureChild(draft, parent, id); }\<close>
  that creates the synthetic storey, the two fallback containers and a class group.
\<close>

definition createIfMissing :: "(string \<Rightarrow> string \<Rightarrow> int) \<Rightarrow> TreeNode \<Rightarrow> string \<Rightarrow> NodeMap \<Rightarrow> NodeMap" where
  "createIfMissing cmp node pid draft =
     (if has_key draft (id' node) then draft
      else ensureChild pid (id' node) (upsertNode cmp node draft))"

text \<open>A node literal without class, tag, property sets and \<^verbatim>\<open>ifc\<close>.\<close>

definition container :: "string \<Rightarrow> NodeKind \<Rightarrow> string \<Rightarrow> string \<Rightarrow> TreeNode" where
  "container i k nm pid =
     \<lparr> id' = i, kind = k, name = nm, parentId = Some pid, children = [], ifcClass = None,
       tag = None, psets = None, ifc = None \<rparr>"

definition ensureSyntheticStorey :: "(string \<Rightarrow> string \<Rightarrow> int) \<Rightarrow> string \<Rightarrow> NodeMap \<Rightarrow> string \<times> NodeMap" where
  "ensureSyntheticStorey cmp buildingId draft =
     (let synthStoreyId = ''ifc:storey:synthetic:'' @ buildingId
      in (synthStoreyId,
          createIfMissing cmp (container synthStoreyId Storey ''Storey 0'' buildingId) buildingId
            draft))"

text \<open>The fixed ids of the placeholder containers.\<close>

definition defaultProjectId :: string where
  "defaultProjectId = ''ifc:project:default''"

definition synthBuildingId :: string where
  "synthBuildingId = ''ifc:building:synthetic:'' @ defaultProjectId"

definition ensureFallbackSpatialContainers :: "(string \<Rightarrow> string \<Rightarrow> int) \<Rightarrow> NodeMap \<Rightarrow> string \<times> NodeMap" where
  "ensureFallbackSpatialContainers cmp draft =
     (let d1 = createIfMissing cmp
                 (container defaultProjectId Project ''Imported Project'' ''root'') ''root'' draft;
          d2 = createIfMissing cmp
                 (container synthBuildingId Building ''Building 0'' defaultProjectId)
                 defaultProjectId d1
      in ensureSyntheticStorey cmp synthBuildingId d2)"

text \<open>
  The storey of a leaf element: the current storey when there is one; otherwise the
  synthetic storey of the building found at the parent or at the parent's parent, or of
  the fallback containers.
\<close>

definition buildingOf :: "string \<Rightarrow> NodeMap \<Rightarrow> string option" where
  "buildingOf resolvedParentId draft =
     (case (if resolvedParentId \<noteq> [] then map_of draft resolvedParentId else None) of
        None \<Rightarrow> None
      | Some p \<Rightarrow>
          if kind p = Building then Some (id' p)
          else if truthy (parentId p) \<and> Option.bind (parentId p) (kind_at draft) = Some Building
               then parentId p
               else None)"

definition storeyFor :: "(string \<Rightarrow> string \<Rightarrow> int) \<Rightarrow> string \<Rightarrow> string option \<Rightarrow> NodeMap \<Rightarrow> string \<times> NodeMap" where
  "storeyFor cmp resolvedParentId currentStoreyId draft =
     (case (if truthy currentStoreyId then currentStoreyId else None) of
        Some storeyId \<Rightarrow> (storeyId, draft)
      | None \<Rightarrow>
          (let buildingId = buildingOf resolvedParentId draft
           in case (if truthy buildingId then buildingId else None) of
                Some b \<Rightarrow> ensureSyntheticStorey cmp b draft
              | None \<Rightarrow> ensureFallbackSpatialContainers cmp draft))"

text \<open>The node literals of a spatial node and of a leaf element.\<close>

definition spatialNode :: "IfcManager \<Rightarrow> nat \<Rightarrow> NodeKind \<Rightarrow> nat \<Rightarrow> string \<Rightarrow> string \<Rightarrow> TreeNode" where
  "spatialNode mgr mid k eid typeUpper resolvedParentId =
     (let gid = safeGetGlobalId mgr mid eid;
          nm = (case safeGetName mgr mid eid of None \<Rightarrow> typeUpper | Some n \<Rightarrow> n)
      in \<lparr> id' = stableSpatialId k gid eid, kind = k,
           name = (if nm \<noteq> [] then nm else kindName k),
           parentId = Some resolvedParentId, children = [], ifcClass = None, tag = None,
           psets = None,
           ifc = Some \<lparr> modelID = mid, expressID = eid, globalId = gid,
                        ifc_type = Some typeUpper \<rparr> \<rparr>)"

definition objectId :: "IfcManager \<Rightarrow> nat \<Rightarrow> nat \<Rightarrow> string" where
  "objectId mgr mid eid =
     ''ifc:obj:'' @ (case safeGetGlobalId mgr mid eid of
                       None \<Rightarrow> show_nat mid @ '':'' @ show_nat eid
                     | Some g \<Rightarrow> g)"

definition objectNode :: "IfcManager \<Rightarrow> nat \<Rightarrow> nat \<Rightarrow> string \<Rightarrow> string \<Rightarrow> string \<Rightarrow> TreeNode" where
  "objectNode mgr mid eid typeUpper className classGroupId =
     (let gid = safeGetGlobalId mgr mid eid;
          nm = (case safeGetName mgr mid eid of None \<Rightarrow> typeUpper | Some n \<Rightarrow> n);
          tg = safeGetTag mgr mid eid
      in \<lparr> id' = objectId mgr mid eid, kind = Object,
           name = (if nm \<noteq> [] then nm else className),
           parentId = Some classGroupId, children = [], ifcClass = Some className,
           tag = (if truthy tg then tg else gid),
           psets = Some (safeGetPsets mgr mid eid),
           ifc = Some \<lparr> modelID = mid, expressID = eid, globalId = gid,
                        ifc_type = Some typeUpper \<rparr> \<rparr>)"

text \<open>The id of the class group of a storey: \<^verbatim>\<open>`${storeyId}__${className}`\<close>.\<close>

definition groupId :: "string \<Rightarrow> string \<Rightarrow> string" where
  "groupId storeyId className = storeyId @ ''__'' @ className"

definition classGroupNode :: "string \<Rightarrow> string \<Rightarrow> TreeNode" where
  "classGroupNode storeyId className =
     (container (groupId storeyId className) ClassGroup className storeyId)
       \<lparr>ifcClass := Some className\<rparr>"

text \<open>The two branches of \<^verbatim>\<open>walk\<close> up to the recursion into the children.\<close>

definition spatialStep ::
  "IfcManager \<Rightarrow> nat \<Rightarrow> NodeKind \<Rightarrow> nat \<Rightarrow> string \<Rightarrow> string option \<Rightarrow> NodeMap \<Rightarrow> string \<times> NodeMap"
where
  "spatialStep mgr mid k eid typeUpper pid draft =
     (let resolvedParentId =
            (if k = Project then ''root'' else (case pid of None \<Rightarrow> ''root'' | Some q \<Rightarrow> q));
          node = spatialNode mgr mid k eid typeUpper resolvedParentId;
          d1 = ensureNode resolvedParentId (rootNode\<lparr>id' := resolvedParentId\<rparr>) draft;
          d2 = upsertNode (localeCompare mgr) node d1
      in (id' node, ensureChild resolvedParentId (id' node) d2))"

definition leafStep ::
  "IfcManager \<Rightarrow> nat \<Rightarrow> nat \<Rightarrow> string \<Rightarrow> string \<Rightarrow> string option \<Rightarrow> NodeMap \<Rightarrow> string \<times> NodeMap"
where
  "leafStep mgr mid eid typeUpper resolvedParentId currentStoreyId draft =
     (let r = storeyFor (localeCompare mgr) resolvedParentId currentStoreyId draft;
          storeyId = fst r;
          className = ifcClassForElement typeUpper;
          classGroupId = groupId storeyId className;
          d1 = createIfMissing (localeCompare mgr) (classGroupNode storeyId className) storeyId
                 (snd r);
          node = objectNode mgr mid eid typeUpper className classGroupId;
          d2 = upsertNode (localeCompare mgr) node d1
      in (storeyId, ensureChild classGroupId (id' node) d2))"

fun walk :: "IfcManager \<Rightarrow> nat \<Rightarrow> string option \<Rightarrow> string option \<Rightarrow> SpatialNode \<Rightarrow> NodeMap \<Rightarrow> NodeMap"
and walks :: "IfcManager \<Rightarrow> nat \<Rightarrow> string option \<Rightarrow> string option \<Rightarrow> SpatialNode list \<Rightarrow> NodeMap \<Rightarrow> NodeMap"
where
  "walk mgr mid pid currentStoreyId (SpatialNode eid ty chs) draft =
     (let typeUpper = toUpperCase ty
      in case spatialKindFromIfcType typeUpper of
           Some k \<Rightarrow>
             (let r = spatialStep mgr mid k eid typeUpper pid draft
              in walks mgr mid (Some (fst r))
                   (if k = Storey then Some (fst r) else currentStoreyId) chs (snd r))
         | None \<Rightarrow>
             (let resolvedParentId = (case pid of None \<Rightarrow> ''root'' | Some q \<Rightarrow> q);
                  r = leafStep mgr mid eid typeUpper resolvedParentId currentStoreyId draft
              in walks mgr mid (Some resolvedParentId) (Some (fst r)) chs (snd r)))"
| "walks mgr mid pid currentStoreyId [] draft = draft"
| "walks mgr mid pid currentStoreyId (ch # rest) draft =
     walks mgr mid pid currentStoreyId rest (walk mgr mid pid currentStoreyId ch draft)"

definition importIfcIntoCoordinator :: "IfcManager option \<Rightarrow> nat \<Rightarrow> NodeMap \<Rightarrow> error + NodeMap" where
  "importIfcIntoCoordinator viewer mid nodes =
     (case viewer of
        None \<Rightarrow> Inl manager_error
      | Some mgr \<Rightarrow>
          (let draft = ensureNode ''root'' rootNode nodes
           in case getSpatialStructure mgr mid of
                None \<Rightarrow> Inr draft
              | Some spatial \<Rightarrow> Inr (walk mgr mid (Some ''root'') None spatial draft)))"

text \<open>
  The placeholder storey and its class group, and the four structural fields of an entry.
\<close>

definition synthStoreyId :: string where
  "synthStoreyId = ''ifc:storey:synthetic:'' @ synthBuildingId"

definition fallbackGroupId :: string where
  "fallbackGroupId = groupId synthStoreyId ''IfcBuildingElementProxy''"

definition shape :: "string \<times> TreeNode \<Rightarrow> string \<times> NodeKind \<times> string option \<times> string list" where
  "shape e = (fst e, kind (snd e), parentId (snd e), children (snd e))"

text \<open>
  The expected outcome of importing one leaf into the empty tree: the root, the three
  placeholders, one class group and the object \<open>oid\<close>, each the only child of the one
  before it.
\<close>

definition placeholderChain :: "string \<Rightarrow> (string \<times> NodeKind \<times> string option \<times> string list) list" where
  "placeholderChain oid =
     [(''root'', Root, None, [defaultProjectId]),
      (defaultProjectId, Project, Some ''root'', [synthBuildingId]),
      (synthBuildingId, Building, Some defaultProjectId, [synthStoreyId]),
      (synthStoreyId, Storey, Some synthBuildingId, [fallbackGroupId]),
      (fallbackGroupId, ClassGroup, Some synthStoreyId, [oid]),
      (oid, Object, Some fallbackGroupId, [])]"

definition mgr0 :: "SpatialNode option \<Rightarrow> IfcManager" where
  "mgr0 sp = \<lparr> getSpatialStructure = (\<lambda>_. sp), safeGetGlobalId = (\<lambda>_ _. None),
     safeGetName = (\<lambda>_ _. None), safeGetTag = (\<lambda>_ _. None), safeGetPsets = (\<lambda>_ _. []),
     localeCompare = (\<lambda>a b. int (length a) - int (length b)) \<rparr>"

subsection \<open>Observations of a tree used in the statements about the importer\<close>

text \<open>
  The class, and the kind, id and parent, of the entry stored under a key.
\<close>

definition class_at :: "NodeMap \<Rightarrow> string \<Rightarrow> string option" where
  "class_at m k = Option.bind (map_of m k) ifcClass"

definition ctl_at :: "NodeMap \<Rightarrow> string \<Rightarrow> (NodeKind \<times> string \<times> string option) option" where
  "ctl_at m k = map_option (\<lambda>n. (kind n, id' n, parentId n)) (map_of m k)"

text \<open>
  What \<^verbatim>\<open>ensureChild\<close> does to the parent entry it finds.
\<close>

definition withChildOnce :: "string \<Rightarrow> TreeNode \<Rightarrow> TreeNode" where
  "withChildOnce c g = (if c \<in> set (children g) then g else g\<lparr>children := children g @ [c]\<rparr>)"



subsection \<open>Observations of a tree and of a walk used in the statements about the importer\<close>

text \<open>
  The ids of objects start with \<^verbatim>\<open>ifc:obj:\<close>, those of storeys (real or synthetic) with \<^verbatim>\<open>ifc:storey:\<close>.
\<close>

definition objkey :: "string \<Rightarrow> bool" where
  "objkey k = startsWith k ''ifc:obj:''"

definition storeykey :: "string \<Rightarrow> bool" where
  "storeykey k = startsWith k ''ifc:storey:''"

text \<open>
  The prefix of an id that goes with each kind of node the importer writes; a class group
  has the id of its storey followed by the class name.
\<close>

definition wellKeyed :: "string \<Rightarrow> NodeKind \<Rightarrow> bool" where
  "wellKeyed k kd =
     (case kd of Root \<Rightarrow> False
      | Project \<Rightarrow> startsWith k ''ifc:project:''
      | Site \<Rightarrow> startsWith k ''ifc:site:''
      | Building \<Rightarrow> startsWith k ''ifc:building:''
      | Storey \<Rightarrow> storeykey k
      | ClassGroup \<Rightarrow> storeykey k
      | Object \<Rightarrow> objkey k)"

definition spatialWrite :: "string \<Rightarrow> NodeKind \<Rightarrow> bool" where
  "spatialWrite k kd = (wellKeyed k kd \<and> kd \<noteq> Object)"

text \<open>
  The entry under \<open>p\<close> lists \<open>c\<close> among its children.
\<close>

definition listed :: "NodeMap \<Rightarrow> string \<Rightarrow> string \<Rightarrow> bool" where
  "listed d p c = (case map_of d p of None \<Rightarrow> False | Some g \<Rightarrow> c \<in> set (children g))"

text \<open>
  From \<open>d\<close> to \<open>d'\<close> no key is lost, no child is lost, and no class is changed.
\<close>

definition grows :: "NodeMap \<Rightarrow> NodeMap \<Rightarrow> bool" where
  "grows d d' =
     (\<forall>k g. map_of d k = Some g \<longrightarrow>
        (\<exists>g'. map_of d' k = Some g' \<and> set (children g) \<subseteq> set (children g') \<and>
              (ifcClass g \<noteq> None \<longrightarrow> ifcClass g' = ifcClass g)))"

text \<open>
  From \<open>d\<close> to \<open>d'\<close> the kind, id and parent of an entry stay as they are, or the entry has
  been written with its own key as id, a parent, and a kind that \<open>Q\<close> allows for the key.
\<close>

definition writes :: "(string \<Rightarrow> NodeKind \<Rightarrow> bool) \<Rightarrow> NodeMap \<Rightarrow> NodeMap \<Rightarrow> bool" where
  "writes Q d d' =
     (\<forall>k. ctl_at d' k = ctl_at d k \<or> (\<exists>kd p. ctl_at d' k = Some (kd, k, Some p) \<and> Q k kd))"

text \<open>
  The parent id after \<^verbatim>\<open>parentId ?? "root"\<close>, and the condition under which \<^verbatim>\<open>walk\<close> is called by
  the importer: root and parent are in the tree, the current storey is a storey id.
\<close>

definition rpOf :: "string option \<Rightarrow> string" where
  "rpOf pid = (case pid of None \<Rightarrow> ''root'' | Some q \<Rightarrow> q)"

definition ready :: "string option \<Rightarrow> string option \<Rightarrow> NodeMap \<Rightarrow> bool" where
  "ready pid cur d =
     (has_key d ''root'' \<and> has_key d (rpOf pid) \<and> (case cur of None \<Rightarrow> True | Some c \<Rightarrow> storeykey c))"




text \<open>
  A wall with a door below it, in a storey of a project.
\<close>

definition nested_elements :: SpatialNode where
  "nested_elements =
     SpatialNode 1 ''IfcProject''
       [SpatialNode 2 ''IfcBuildingStorey'' [SpatialNode 7 ''IfcWall'' [SpatialNode 8 ''IfcDoor'' []]]]"

text \<open>
  A hierarchy that is a chain of ancestors, given by express id and type tag, above a leaf.
\<close>

fun chain :: "(nat \<times> string) list \<Rightarrow> SpatialNode \<Rightarrow> SpatialNode" where
  "chain [] leaf = leaf"
| "chain (a # as) leaf = SpatialNode (fst a) (snd a) [chain as leaf]"

text \<open>
  The entry under \<open>c\<close> is of kind \<open>kd\<close>, has \<open>p\<close> as parent and is listed by \<open>p\<close>.
\<close>

definition under :: "NodeMap \<Rightarrow> string \<Rightarrow> string \<Rightarrow> NodeKind \<Rightarrow> bool" where
  "under d p c kd = (kind_at d c = Some kd \<and> parent_of d c = Some p \<and> listed d p c)"

text \<open>
  All entries are the root, projects or sites, except the pairs of key and kind in \<open>A\<close>.
\<close>

definition besides :: "NodeMap \<Rightarrow> (string \<times> NodeKind) set \<Rightarrow> bool" where
  "besides d A =
     (\<forall>k kd. kind_at d k = Some kd \<longrightarrow> kd = Root \<or> kd = Project \<or> kd = Site \<or> (k, kd) \<in> A)"

text \<open>
  A tree that holds only the root, projects directly under the root and sites.
\<close>

definition sites_only :: "NodeMap \<Rightarrow> bool" where
  "sites_only d =
     (\<forall>k kd. kind_at d k = Some kd \<longrightarrow>
        (kd = Root \<and> k = ''root'') \<or>
        (kd = Project \<and> startsWith k ''ifc:project:'' \<and> under d ''root'' k Project) \<or>
        (kd = Site \<and> startsWith k ''ifc:site:''))"

text \<open>
  A wall in a storey that is directly below the project, and a wall below a site of a project.
\<close>

definition project_storey_leaf :: SpatialNode where
  "project_storey_leaf =
     SpatialNode 1 ''IfcProject'' [SpatialNode 2 ''IfcBuildingStorey'' [SpatialNode 7 ''IfcWall'' []]]"

definition project_site_leaf :: SpatialNode where
  "project_site_leaf = chain [(1, ''IfcProject''), (2, ''IfcSite'')] (SpatialNode 7 ''IfcWall'' [])"

subsection \<open>Two imports side by side\<close>

text \<open>
  The ids the importer gives to spatial nodes, and the root.
\<close>

definition spatial_key :: "string \<Rightarrow> bool" where
  "spatial_key k = (k = ''root'' \<or> startsWith k ''ifc:project:'' \<or> startsWith k ''ifc:site:''
      \<or> startsWith k ''ifc:building:'' \<or> startsWith k ''ifc:storey:'')"

text \<open>
  Two trees agree on a set \<open>S\<close> of spatial keys: the second has every key of the first, and
  the entries at \<open>S\<close> have the same kind, id and parent, with parents of the same kind.
\<close>

definition agree :: "string set \<Rightarrow> NodeMap \<Rightarrow> NodeMap \<Rightarrow> bool" where
  "agree S d1 d2 =
     ((\<forall>k. has_key d1 k \<longrightarrow> has_key d2 k) \<and>
      (\<forall>k\<in>S. spatial_key k \<and> has_key d1 k \<and> ctl_at d1 k = ctl_at d2 k \<and>
         (\<forall>q. parent_of d1 k = Some q \<longrightarrow> kind_at d1 q = kind_at d2 q)))"

text \<open>
  Two steps add the same keys to their trees.
\<close>

definition same_growth :: "NodeMap \<Rightarrow> NodeMap \<Rightarrow> NodeMap \<Rightarrow> NodeMap \<Rightarrow> bool" where
  "same_growth d1 d1' d2 d2' =
     (\<exists>T. (\<forall>k. has_key d1' k = (k \<in> T \<or> has_key d1 k)) \<and>
          (\<forall>k. has_key d2' k = (k \<in> T \<or> has_key d2 k)))"

text \<open>
  The keys of \<open>d\<close> are an initial segment of those of \<open>d'\<close>, and stay without repetition.
\<close>

definition extends :: "NodeMap \<Rightarrow> NodeMap \<Rightarrow> bool" where
  "extends d d' =
     ((\<exists>ks. map fst d' = map fst d @ ks) \<and> (distinct (map fst d) \<longrightarrow> distinct (map fst d')))"

section \<open>Properties of repair\<close>

text \<open>
  C1 (idempotence of repair), evaluated at a snapshot whose \<^verbatim>\<open>root\<close> entry is of kind
  Project and that holds a second Project: the first pass finds no valid root child and
  lists every Project, the root included; the second pass drops the self reference,
  finds a valid child and keeps only that one.  The two results differ.
\<close>

theorem sanitizeNodes_not_idempotent_at_root_project:
  "map (\<lambda>e. (fst e, children (snd e))) (sanitizeNodes snapshot_two_projects)
     = [(''root'', [''root'', ''p'']), (''p'', [])] \<and>
   map (\<lambda>e. (fst e, children (snd e))) (sanitizeNodes (sanitizeNodes snapshot_two_projects))
     = [(''root'', [''p'']), (''p'', [])]"
  by (simp add: sanitizeNodes_def sanitize_step_def snapshot_two_projects_def bare_def
      has_key_def kind_at_def Let_def)

text \<open>
  C5 (after repair no node lists itself or a missing id as a child), evaluated at the
  snapshot that holds only a \<^verbatim>\<open>root\<close> entry of kind Project: the repaired root lists
  itself.
\<close>

theorem sanitizeNodes_self_child_at_root_project:
  "map (\<lambda>e. (fst e, children (snd e))) (sanitizeNodes snapshot_root_project)
     = [(''root'', [''root''])]"
  by (simp add: sanitizeNodes_def sanitize_step_def snapshot_root_project_def bare_def
      has_key_def kind_at_def Let_def)

section \<open>Properties of the move operations\<close>

lemma keys_update_present:
  "map_of d k \<noteq> None \<Longrightarrow> map fst (AList.update k w d) = map fst d"
  by (auto simp: update_keys dest: map_of_SomeD intro: image_eqI[where x="(a,b)" for a b])

lemma map_of_detach:
  "map_of (detachFromParent c pid d) k =
     (case pid of None \<Rightarrow> map_of d k
      | Some q \<Rightarrow> if q \<noteq> [] \<and> k = q
          then map_option (\<lambda>p. p\<lparr>children := filter (\<lambda>x. x \<noteq> c) (children p)\<rparr>) (map_of d q)
          else map_of d k)"
  by (auto simp: detachFromParent_def update_conv' split: option.splits)

lemma keys_detach: "map fst (detachFromParent c pid d) = map fst d"
  by (auto simp: detachFromParent_def keys_update_present split: option.splits)

lemma map_of_attach:
  "map_of (attachToParent c q d) k =
     (if k = q then map_option (\<lambda>p. p\<lparr>children := children p @ [c]\<rparr>) (map_of d q)
      else map_of d k)"
  by (auto simp: attachToParent_def update_conv' split: option.splits)

lemma keys_attach: "map fst (attachToParent c q d) = map fst d"
  by (auto simp: attachToParent_def keys_update_present split: option.splits)

lemma moveBuildingToSite_noop:
  "kind_at prev x \<noteq> Some Building \<or> kind_at prev t \<noteq> Some Site \<or> parent_of prev x = Some t
   \<Longrightarrow> moveBuildingToSite x t prev = prev"
  by (auto simp: moveBuildingToSite_def kind_at_def parent_of_def split: option.splits)

lemma moveBuildingToSite_moves:
  assumes "map_of prev x = Some b" "kind b = Building" "map_of prev t = Some tn" "kind tn = Site"
    "parentId b \<noteq> Some t"
  shows "map fst (moveBuildingToSite x t prev) = map fst prev \<and>
    map_of (moveBuildingToSite x t prev) x = Some (b\<lparr>parentId := Some t\<rparr>) \<and>
    map_of (moveBuildingToSite x t prev) t = Some (with_child x tn) \<and>
    (\<forall>q p. parentId b = Some q \<and> q \<noteq> [] \<and> q \<noteq> x \<and> map_of prev q = Some p \<longrightarrow>
       map_of (moveBuildingToSite x t prev) q = Some (without x p)) \<and>
    (\<forall>k. k \<noteq> x \<and> k \<noteq> t \<and> (truthy (parentId b) \<longrightarrow> parentId b \<noteq> Some k) \<longrightarrow>
       map_of (moveBuildingToSite x t prev) k = map_of prev k)"
  using assms
  by (auto simp: moveBuildingToSite_def update_conv' keys_update_present keys_attach keys_detach
      map_of_attach map_of_detach without_def with_child_def truthy_def split: option.splits)

lemma moveStoreyToBuilding_noop:
  "kind_at prev x \<noteq> Some Storey \<or> kind_at prev t \<noteq> Some Building \<or> parent_of prev x = Some t
   \<Longrightarrow> moveStoreyToBuilding x t prev = prev"
  by (auto simp: moveStoreyToBuilding_def kind_at_def parent_of_def split: option.splits)

lemma moveStoreyToBuilding_moves:
  assumes "map_of prev x = Some b" "kind b = Storey" "map_of prev t = Some tn" "kind tn = Building"
    "parentId b \<noteq> Some t"
  shows "map fst (moveStoreyToBuilding x t prev) = map fst prev \<and>
    map_of (moveStoreyToBuilding x t prev) x = Some (b\<lparr>parentId := Some t\<rparr>) \<and>
    map_of (moveStoreyToBuilding x t prev) t = Some (with_child x tn) \<and>
    (\<forall>q p. parentId b = Some q \<and> q \<noteq> [] \<and> q \<noteq> x \<and> map_of prev q = Some p \<longrightarrow>
       map_of (moveStoreyToBuilding x t prev) q = Some (without x p)) \<and>
    (\<forall>k. k \<noteq> x \<and> k \<noteq> t \<and> (truthy (parentId b) \<longrightarrow> parentId b \<noteq> Some k) \<longrightarrow>
       map_of (moveStoreyToBuilding x t prev) k = map_of prev k)"
  using assms
  by (auto simp: moveStoreyToBuilding_def update_conv' keys_update_present keys_attach keys_detach
      map_of_attach map_of_detach without_def with_child_def truthy_def split: option.splits)

lemma moveObjectToGroup_noop:
  "kind_at prev x \<noteq> Some Object \<or> kind_at prev t \<noteq> Some ClassGroup \<or> \<not> truthy (parent_of prev x)
   \<Longrightarrow> moveObjectToGroup x t prev = prev"
  by (auto simp: moveObjectToGroup_def kind_at_def parent_of_def truthy_def split: option.splits)

lemma moveObjectToGroup_moves:
  assumes "map_of prev x = Some b" "kind b = Object" "map_of prev t = Some tn" "kind tn = ClassGroup"
    "parentId b = Some q" "q \<noteq> []" "q \<noteq> t"
  shows "map fst (moveObjectToGroup x t prev) = map fst prev \<and>
    map_of (moveObjectToGroup x t prev) x = Some (b\<lparr>parentId := Some t, ifcClass := ifcClass tn\<rparr>) \<and>
    map_of (moveObjectToGroup x t prev) t = Some (with_child x tn) \<and>
    (\<forall>p. q \<noteq> x \<and> map_of prev q = Some p \<longrightarrow>
       map_of (moveObjectToGroup x t prev) q = Some (if kind p = ClassGroup then without x p else p)) \<and>
    (\<forall>k. k \<noteq> x \<and> k \<noteq> t \<and> q \<noteq> k \<longrightarrow> map_of (moveObjectToGroup x t prev) k = map_of prev k)"
  using assms
  by (auto simp: moveObjectToGroup_def update_conv' keys_update_present Let_def
      without_def with_child_def truthy_def split: option.splits)

text \<open>
  C7, as amended.  A move returns its input unchanged when the moved id is missing or
  not of the kind the operation moves, when the target id is missing or not of the
  kind the operation expects, and, for buildings and storeys, when the node is already
  under the target; for objects, when the object has no (truthy) \<^verbatim>\<open>parentId\<close>.  Otherwise,
  for a target other than the current parent, the key order is kept, the moved node
  gets the target as \<^verbatim>\<open>parentId\<close> (an object also the target group's class), the target
  gets the id appended to its children, the old parent (a truthy id of an entry other
  than the moved node; for objects only an old parent of kind ClassGroup) loses the id
  from its children, and every other entry is unchanged.
\<close>

theorem move_operations:
  "(kind_at prev x \<noteq> Some Building \<or> kind_at prev t \<noteq> Some Site \<or> parent_of prev x = Some t
      \<longrightarrow> moveBuildingToSite x t prev = prev) \<and>
   (kind_at prev x \<noteq> Some Storey \<or> kind_at prev t \<noteq> Some Building \<or> parent_of prev x = Some t
      \<longrightarrow> moveStoreyToBuilding x t prev = prev) \<and>
   (kind_at prev x \<noteq> Some Object \<or> kind_at prev t \<noteq> Some ClassGroup \<or> \<not> truthy (parent_of prev x)
      \<longrightarrow> moveObjectToGroup x t prev = prev) \<and>
   (map_of prev x = Some n \<and> map_of prev t = Some g \<and> parentId n \<noteq> Some t \<and>
    (kind n = Building \<and> kind g = Site \<and> r = moveBuildingToSite x t prev \<and> n' = n\<lparr>parentId := Some t\<rparr> \<or>
     kind n = Storey \<and> kind g = Building \<and> r = moveStoreyToBuilding x t prev \<and> n' = n\<lparr>parentId := Some t\<rparr> \<or>
     kind n = Object \<and> kind g = ClassGroup \<and> truthy (parentId n) \<and> r = moveObjectToGroup x t prev \<and>
       n' = n\<lparr>parentId := Some t, ifcClass := ifcClass g\<rparr>)
    \<longrightarrow>
      map fst r = map fst prev \<and>
      map_of r x = Some n' \<and>
      map_of r t = Some (with_child x g) \<and>
      (\<forall>q p. parentId n = Some q \<and> q \<noteq> [] \<and> q \<noteq> x \<and> map_of prev q = Some p \<longrightarrow>
         map_of r q = Some (if kind n = Object \<and> kind p \<noteq> ClassGroup then p else without x p)) \<and>
      (\<forall>k. k \<noteq> x \<and> k \<noteq> t \<and> (truthy (parentId n) \<longrightarrow> parentId n \<noteq> Some k) \<longrightarrow>
         map_of r k = map_of prev k))"
proof -
  have B: "kind_at prev x \<noteq> Some Building \<or> kind_at prev t \<noteq> Some Site \<or> parent_of prev x = Some t
      \<longrightarrow> moveBuildingToSite x t prev = prev"
    using moveBuildingToSite_noop by blast
  have S: "kind_at prev x \<noteq> Some Storey \<or> kind_at prev t \<noteq> Some Building \<or> parent_of prev x = Some t
      \<longrightarrow> moveStoreyToBuilding x t prev = prev"
    using moveStoreyToBuilding_noop by blast
  have O: "kind_at prev x \<noteq> Some Object \<or> kind_at prev t \<noteq> Some ClassGroup \<or> \<not> truthy (parent_of prev x)
      \<longrightarrow> moveObjectToGroup x t prev = prev"
    using moveObjectToGroup_noop by blast
  have M: "map_of prev x = Some n \<and> map_of prev t = Some g \<and> parentId n \<noteq> Some t \<and>
    (kind n = Building \<and> kind g = Site \<and> r = moveBuildingToSite x t prev \<and> n' = n\<lparr>parentId := Some t\<rparr> \<or>
     kind n = Storey \<and> kind g = Building \<and> r = moveStoreyToBuilding x t prev \<and> n' = n\<lparr>parentId := Some t\<rparr> \<or>
     kind n = Object \<and> kind g = ClassGroup \<and> truthy (parentId n) \<and> r = moveObjectToGroup x t prev \<and>
       n' = n\<lparr>parentId := Some t, ifcClass := ifcClass g\<rparr>)
    \<longrightarrow>
      map fst r = map fst prev \<and>
      map_of r x = Some n' \<and>
      map_of r t = Some (with_child x g) \<and>
      (\<forall>q p. parentId n = Some q \<and> q \<noteq> [] \<and> q \<noteq> x \<and> map_of prev q = Some p \<longrightarrow>
         map_of r q = Some (if kind n = Object \<and> kind p \<noteq> ClassGroup then p else without x p)) \<and>
      (\<forall>k. k \<noteq> x \<and> k \<noteq> t \<and> (truthy (parentId n) \<longrightarrow> parentId n \<noteq> Some k) \<longrightarrow>
         map_of r k = map_of prev k)"
    (is "_ \<longrightarrow> ?C")
  proof (rule impI, elim conjE disjE)
    assume h: "map_of prev x = Some n" "map_of prev t = Some g" "parentId n \<noteq> Some t"
      and b: "kind n = Building" "kind g = Site" "r = moveBuildingToSite x t prev"
        "n' = n\<lparr>parentId := Some t\<rparr>"
    show ?C
      unfolding b(3,4) using moveBuildingToSite_moves[OF h(1) b(1) h(2) b(2) h(3)] b(1) by simp
  next
    assume h: "map_of prev x = Some n" "map_of prev t = Some g" "parentId n \<noteq> Some t"
      and s: "kind n = Storey" "kind g = Building" "r = moveStoreyToBuilding x t prev"
        "n' = n\<lparr>parentId := Some t\<rparr>"
    show ?C
      unfolding s(3,4) using moveStoreyToBuilding_moves[OF h(1) s(1) h(2) s(2) h(3)] s(1) by simp
  next
    assume h: "map_of prev x = Some n" "map_of prev t = Some g" "parentId n \<noteq> Some t"
      and ob: "kind n = Object" "kind g = ClassGroup" "truthy (parentId n)"
        "r = moveObjectToGroup x t prev" "n' = n\<lparr>parentId := Some t, ifcClass := ifcClass g\<rparr>"
    from ob(3) obtain q where q: "parentId n = Some q" "q \<noteq> []"
      by (auto simp: truthy_def split: option.splits)
    with h(3) have qt: "q \<noteq> t" by auto
    show ?C
      unfolding ob(4,5) using moveObjectToGroup_moves[OF h(1) ob(1) h(2) ob(2) q qt] ob(1) q
      by (simp add: truthy_def)
  qed
  show ?thesis by (rule conjI[OF B conjI[OF S conjI[OF O M]]])
qed

theorem move_operations_witness:
  "moveStoreyToBuilding ''b'' ''s2'' two_sites = two_sites \<and>
   moveObjectToGroup ''b'' ''s2'' two_sites = two_sites \<and>
   moveBuildingToSite ''b'' ''s1'' two_sites = two_sites \<and>
   map fst (moveBuildingToSite ''b'' ''s2'' two_sites) = [''s1'', ''s2'', ''b''] \<and>
   map_of (moveBuildingToSite ''b'' ''s2'' two_sites) ''b''
     = Some (bare ''b'' Building (Some ''s2'') []) \<and>
   map_of (moveBuildingToSite ''b'' ''s2'' two_sites) ''s2''
     = Some (bare ''s2'' Site None [''b'']) \<and>
   map_of (moveBuildingToSite ''b'' ''s2'' two_sites) ''s1''
     = Some (bare ''s1'' Site None [''c''])"
  using
    move_operations[where prev = two_sites and x = "''b''" and t = "''s2''"
      and n = "bare ''b'' Building (Some ''s1'') []" and g = "bare ''s2'' Site None []"
      and r = "moveBuildingToSite ''b'' ''s2'' two_sites"
      and n' = "bare ''b'' Building (Some ''s2'') []"]
    move_operations[where prev = two_sites and x = "''b''" and t = "''s1''"]
  by (simp add: two_sites_def bare_def kind_at_def parent_of_def truthy_def without_def
      with_child_def)

text \<open>
  C7 as stated fails for an object that has no \<^verbatim>\<open>parentId\<close>: both ids are in the map and
  the target is a ClassGroup, yet \<^verbatim>\<open>moveObjectToGroup\<close> returns its input and the object is
  not attached.
\<close>

theorem moveObjectToGroup_orphan_counterexample:
  "kind_at orphan_snapshot ''o'' = Some Object \<and>
   kind_at orphan_snapshot ''g'' = Some ClassGroup \<and>
   moveObjectToGroup ''o'' ''g'' orphan_snapshot = orphan_snapshot \<and>
   parent_of (moveObjectToGroup ''o'' ''g'' orphan_snapshot) ''o'' \<noteq> Some ''g'' \<and>
   map_of (moveObjectToGroup ''o'' ''g'' orphan_snapshot) ''g''
     = Some (bare ''g'' ClassGroup None [])"
  by (simp add: moveObjectToGroup_def orphan_snapshot_def bare_def kind_at_def parent_of_def)

section \<open>Properties of the identifier codec and the exporter\<close>

lemma toBase64Chars_shape:
  "length (toBase64Chars n) = 1 \<and> set (toBase64Chars n) \<subseteq> set chars"
proof (cases "n < length chars")
  case True
  then have "chars ! n \<in> set chars" by (rule nth_mem)
  with True show ?thesis by (simp add: toBase64Chars_def)
next
  case False
  then show ?thesis by (simp add: toBase64Chars_def) (simp add: chars_def)
qed

lemma length_concat_unit:
  "(\<And>x. x \<in> set xs \<Longrightarrow> length (f x) = 1) \<Longrightarrow> length (concat (map f xs)) = length xs"
  by (induction xs) auto

lemma ifcGuidFromUuid_Inl_iff:
  "ifcGuidFromUuid u = Inl e \<longleftrightarrow>
     length (filter (\<lambda>c. c \<noteq> CHR ''-'') u) \<noteq> 32 \<and> e = uuid_error"
  by (auto simp: ifcGuidFromUuid_def Let_def)

lemma ifcGuidFromUuid_shape:
  assumes "length (filter (\<lambda>c. c \<noteq> CHR ''-'') u) = 32"
  shows "\<exists>g. ifcGuidFromUuid u = Inr g \<and> length g = 22 \<and>
     set g \<subseteq> set chars"
proof -
  obtain g where g: "ifcGuidFromUuid u = Inr g"
    and gd: "g = concat (map (\<lambda>i. toBase64Chars (nat ((foldl (\<lambda>a b. a * 256 + uint b) (0::int)
        (map (\<lambda>i. toUint8 (parseInt16 (take 2 (drop (i * 2) (filter (\<lambda>c. c \<noteq> CHR ''-'') u))))) [0..<16])
          div 2 ^ ((21 - i) * 6)) mod 64))) [0..<22])"
    using assms by (simp add: ifcGuidFromUuid_def Let_def)
  have "length g = 22"
    unfolding gd by (subst length_concat_unit) (simp_all add: toBase64Chars_shape)
  moreover have "set g \<subseteq> set chars"
    unfolding gd using toBase64Chars_shape by (auto simp del: upt.simps)
  ultimately show ?thesis using g by blast
qed

lemma hexDigit_not_dash: "hexDigit n \<noteq> CHR ''-''"
proof -
  have "hexDigit n \<in> set ''0123456789abcdef''"
    unfolding hexDigit_def by (rule nth_mem) simp
  then show ?thesis by auto
qed

lemma byteHex_shape: "length (byteHex b) = 2 \<and> CHR ''-'' \<notin> set (byteHex b)"
  using hexDigit_not_dash[of "unat b div 16"] hexDigit_not_dash[of "unat b mod 16"]
  by (auto simp: byteHex_def)

lemma concat_byteHex_shape:
  "length (concat (map byteHex bs)) = 2 * length bs \<and> CHR ''-'' \<notin> set (concat (map byteHex bs))"
  using byteHex_shape by (induction bs) auto

lemma filter_dash_id: "CHR ''-'' \<notin> set xs \<Longrightarrow> filter (\<lambda>c. c \<noteq> CHR ''-'') xs = xs"
  by (induction xs) auto

lemma uuidv4_hex_length: "length (filter (\<lambda>c. c \<noteq> CHR ''-'') (uuidv4 rnd)) = 32"
proof -
  define buf0 where "buf0 = map rnd [0..<16]"
  define buf where "buf = (buf0[6 := (buf0 ! 6 AND 0x0f) OR 0x40])
      [8 := ((buf0[6 := (buf0 ! 6 AND 0x0f) OR 0x40]) ! 8 AND 0x3f) OR 0x80]"
  define hex where "hex = concat (map byteHex buf)"
  have len: "length hex = 32" and nd: "CHR ''-'' \<notin> set hex"
    using concat_byteHex_shape[of buf] by (simp_all add: hex_def buf_def buf0_def)
  have nd': "CHR ''-'' \<notin> set (take k hex)" "CHR ''-'' \<notin> set (drop k hex)"
     "CHR ''-'' \<notin> set (take k (drop j hex))" for k j
    using nd by (auto dest: in_set_takeD in_set_dropD)
  have u: "uuidv4 rnd = take 8 hex @ ''-'' @ take 4 (drop 8 hex) @ ''-'' @ take 4 (drop 12 hex)
      @ ''-'' @ take 4 (drop 16 hex) @ ''-'' @ drop 20 hex"
    by (simp add: uuidv4_def Let_def hex_def buf_def buf0_def)
  show ?thesis
    unfolding u using len by (simp add: filter_dash_id nd')
qed

lemma ifcGuid_eq:
  "ifcGuid env st = Inr (guidOf env (draws st), st\<lparr>draws := draws st + 1\<rparr>)"
  using ifcGuidFromUuid_shape[OF uuidv4_hex_length, of "randomBytes env (draws st)"]
  by (auto simp: ifcGuid_def guidOf_def)

lemma addG_eq:
  "addG env f st = Inr (add (f (guidOf env (draws st))) (st\<lparr>draws := draws st + 1\<rparr>))"
  by (simp add: addG_def ifcGuid_eq)

subsection \<open>No step of the export fails once a project is selected\<close>

lemma createSite_total: "\<exists>r. createSite env oh n pp st = Inr r"
  by (simp add: createSite_def addG_eq Let_def)

lemma createBuilding_total: "\<exists>r. createBuilding env oh n pp st = Inr r"
  by (simp add: createBuilding_def addG_eq Let_def)

lemma createStorey_total: "\<exists>r. createStorey env oh n pp st = Inr r"
  by (simp add: createStorey_def addG_eq Let_def)

lemma createRelAggregates_total: "\<exists>r. createRelAggregates env oh p cs st = Inr r"
  unfolding createRelAggregates_def addG_eq by (cases "cs = []") simp_all

lemma storeyLoop_total: "\<exists>r. storeyLoop env oh b sts acc st = Inr r"
proof (induction sts arbitrary: acc st)
  case Nil
  show ?case by simp
next
  case (Cons x sts)
  obtain r where "createStorey env oh x (nodeToIfcId st (id' b)) st = Inr r"
    using createStorey_total by blast
  then show ?case using Cons.IH by simp
qed

lemma buildingLoop_total: "\<exists>r. buildingLoop env oh nodes sn bs acc st = Inr r"
proof (induction bs arbitrary: acc st)
  case Nil
  show ?case by simp
next
  case (Cons b bs)
  obtain r where r: "createBuilding env oh b (nodeToIfcId st (id' sn)) st = Inr r"
    using createBuilding_total by blast
  obtain r2 where r2: "storeyLoop env oh b (childNodes nodes Storey (children b)) [] (snd r) = Inr r2"
    using storeyLoop_total by blast
  obtain st3 where st3: "createRelAggregates env oh (fst r) (fst r2) (snd r2) = Inr st3"
    using createRelAggregates_total by blast
  show ?case using r r2 st3 Cons.IH by simp
qed

lemma siteLoop_total: "\<exists>r. siteLoop env oh nodes wp ss acc st = Inr r"
proof (induction ss arbitrary: acc st)
  case Nil
  show ?case by simp
next
  case (Cons x ss)
  obtain r where r: "createSite env oh x (Some wp) st = Inr r"
    using createSite_total by blast
  obtain r2 where r2: "buildingLoop env oh nodes x (childNodes nodes Building (children x)) [] (snd r) = Inr r2"
    using buildingLoop_total by blast
  obtain st3 where st3: "createRelAggregates env oh (fst r) (fst r2) (snd r2) = Inr st3"
    using createRelAggregates_total by blast
  show ?case using r r2 st3 Cons.IH by simp
qed

lemma addPsets_total: "\<exists>r. addPsets env oh el ps st = Inr r"
  by (induction ps arbitrary: st) (auto simp: addG_eq Let_def)

lemma objectLoop_total: "\<exists>r. objectLoop env oh i objs acc st = Inr r"
proof (induction objs arbitrary: acc st)
  case Nil
  show ?case by simp
next
  case (Cons obj objs)
  define p where "p = createLocalPlacement (Some i) st"
  obtain r where r: "emitElement env oh (normalizeEntityName (ifcClass obj)) obj (fst p) (snd p) = Inr r"
    by (simp add: emitElement_def addG_eq)
  obtain st2 where st2: "addPsetsForElement env oh (fst r) obj (snd r) = Inr st2"
    unfolding addPsetsForElement_def using addPsets_total by blast
  show ?case using r st2 Cons.IH by (simp add: p_def Let_def)
qed

lemma elementLoop_total: "\<exists>r. elementLoop env oh nodes sts st = Inr r"
proof (induction sts arbitrary: st)
  case Nil
  show ?case by simp
next
  case (Cons x sts)
  show ?case
  proof (cases "nodeToIfcId st (id' x)")
    case None
    then show ?thesis using Cons.IH by simp
  next
    case (Some i)
    obtain r where r: "objectLoop env oh i (getObjectsUnderStorey nodes x) [] st = Inr r"
      using objectLoop_total by blast
    show ?thesis using Some r Cons.IH by (simp add: addG_eq)
  qed
qed

lemma spatialStructure_total: "\<exists>r. spatialStructure env oh wp nodes p ip st = Inr r"
proof -
  obtain r where "siteLoop env oh nodes wp (childNodes nodes Site (children p)) [] st = Inr r"
    using siteLoop_total by blast
  then show ?thesis
    using createRelAggregates_total by (simp add: spatialStructure_def)
qed

lemma createProject_total: "\<exists>r. createProject env oh ctx units p st = Inr r"
  by (simp add: createProject_def addG_eq)

lemma exportBody_total:
  assumes "findProject nodes = Some p"
  shows "\<exists>st. exportBody env nodes = Inr st"
proof -
  obtain oh wp ctx units st7 where c: "commonObjects env = ((oh, wp, ctx, units), st7)"
    by (metis prod.exhaust)
  obtain r8 where r8: "createProject env oh ctx units p st7 = Inr r8"
    using createProject_total by blast
  obtain st10 where w: "spatialStructure env oh wp nodes p (fst r8) (snd r8) = Inr st10"
    using spatialStructure_total by blast
  obtain st11 where e: "elementLoop env oh nodes (filter (\<lambda>n. kind n = Storey) (map snd nodes)) st10
      = Inr st11"
    using elementLoop_total by blast
  show ?thesis
    using assms c r8 w e by (simp add: exportBody_def)
qed

lemma exportBody_Inl_iff:
  "exportBody env nodes = Inl e \<longleftrightarrow> findProject nodes = None \<and> e = missing_project_error"
proof (cases "findProject nodes")
  case None
  then show ?thesis by (auto simp: exportBody_def)
next
  case (Some p)
  then show ?thesis using exportBody_total[OF Some, of env] by auto
qed

lemma findProject_None_iff:
  "findProject nodes = None \<longleftrightarrow>
     (\<forall>n\<in>set (map snd nodes). kind n \<noteq> Project) \<and> map_of nodes ''project'' = None"
proof (cases "find (\<lambda>n. kind n = Project) (map snd nodes)")
  case None
  then have "\<forall>n\<in>set (map snd nodes). kind n \<noteq> Project"
    by (simp add: find_None_iff)
  then show ?thesis unfolding findProject_def None by simp
next
  case (Some p)
  then have "p \<in> set (map snd nodes) \<and> kind p = Project"
    by (auto simp: find_Some_iff)
  then show ?thesis using Some by (auto simp: findProject_def)
qed

text \<open>
  C2, as amended.  The exporter fails, with the missing-project error, exactly when the
  snapshot holds no node of kind Project and no entry under the key \<^verbatim>\<open>project\<close> either; in
  every other case it returns a document, whatever the random bytes and the clock are.
\<close>

theorem exportIfc2x3FromTree_missing_project:
  "if (\<forall>n\<in>set (map snd nodes). kind n \<noteq> Project) \<and> map_of nodes ''project'' = None
   then exportIfc2x3FromTree env nodes fileName = Inl missing_project_error
   else \<exists>doc. exportIfc2x3FromTree env nodes fileName = Inr doc"
proof (cases "findProject nodes")
  case None
  then have "exportBody env nodes = Inl missing_project_error"
    by (simp add: exportBody_Inl_iff)
  then show ?thesis
    using None unfolding findProject_None_iff by (simp add: exportIfc2x3FromTree_def)
next
  case (Some p)
  then obtain st where "exportBody env nodes = Inr st"
    using exportBody_total by blast
  moreover have "\<not> ((\<forall>n\<in>set (map snd nodes). kind n \<noteq> Project) \<and> map_of nodes ''project'' = None)"
    using Some findProject_None_iff[of nodes] by simp
  ultimately show ?thesis
    by (simp add: exportIfc2x3FromTree_def)
qed

subsection \<open>Which entries of \<open>nodeToIfcId\<close> an export step writes\<close>

lemma add_frame [simp]:
  "nodeToIfcId (snd (add t st)) = nodeToIfcId st"
  by (simp add: add_def)

lemma createLocalPlacement_frame [simp]:
  "nodeToIfcId (snd (createLocalPlacement rel st)) = nodeToIfcId st"
  by (simp add: createLocalPlacement_def Let_def)

lemma createStorey_ids:
  "createStorey env oh n pp st = Inr r \<Longrightarrow> nodeToIfcId (snd r) = (nodeToIfcId st)(id' n \<mapsto> fst r)"
  by (auto simp: createStorey_def addG_eq Let_def register_def)

lemma createBuilding_ids:
  "createBuilding env oh n pp st = Inr r \<Longrightarrow> nodeToIfcId (snd r) = (nodeToIfcId st)(id' n \<mapsto> fst r)"
  by (auto simp: createBuilding_def addG_eq Let_def register_def)

lemma createSite_ids:
  "createSite env oh n pp st = Inr r \<Longrightarrow> nodeToIfcId (snd r) = (nodeToIfcId st)(id' n \<mapsto> fst r)"
  by (auto simp: createSite_def addG_eq Let_def register_def)

lemma createRelAggregates_frame:
  "createRelAggregates env oh p cs st = Inr st' \<Longrightarrow> nodeToIfcId st' = nodeToIfcId st"
  by (auto simp: createRelAggregates_def addG_eq split: if_splits)

lemma storeyLoop_ids:
  "storeyLoop env oh b sts acc st = Inr r \<Longrightarrow> k \<notin> id' ` set sts \<Longrightarrow>
     nodeToIfcId (snd r) k = nodeToIfcId st k"
proof (induction sts arbitrary: acc st)
  case Nil
  then show ?case by auto
next
  case (Cons x sts)
  from Cons.prems(1) obtain r1 where
    r1: "createStorey env oh x (nodeToIfcId st (id' b)) st = Inr r1"
    and rest: "storeyLoop env oh b sts (acc @ [fst r1]) (snd r1) = Inr r"
    by (auto split: sum.splits)
  have "nodeToIfcId (snd r) k = nodeToIfcId (snd r1) k"
    using Cons.IH[OF rest] Cons.prems(2) by simp
  then show ?case
    using createStorey_ids[OF r1] Cons.prems(2) by simp
qed

lemma buildingLoop_ids:
  "buildingLoop env oh nodes sn bs acc st = Inr r \<Longrightarrow> k \<notin> id' ` set bs \<Longrightarrow>
   \<forall>b\<in>set bs. k \<notin> id' ` set (childNodes nodes Storey (children b)) \<Longrightarrow>
     nodeToIfcId (snd r) k = nodeToIfcId st k"
proof (induction bs arbitrary: acc st)
  case Nil
  then show ?case by auto
next
  case (Cons b bs)
  from Cons.prems(1) obtain r1 r2 st3 where
    r1: "createBuilding env oh b (nodeToIfcId st (id' sn)) st = Inr r1"
    and r2: "storeyLoop env oh b (childNodes nodes Storey (children b)) [] (snd r1) = Inr r2"
    and st3: "createRelAggregates env oh (fst r1) (fst r2) (snd r2) = Inr st3"
    and rest: "buildingLoop env oh nodes sn bs (acc @ [fst r1]) st3 = Inr r"
    by (auto split: sum.splits)
  have "nodeToIfcId (snd r) k = nodeToIfcId st3 k"
    using Cons.IH[OF rest] Cons.prems(2,3) by simp
  also have "\<dots> = nodeToIfcId (snd r2) k"
    using createRelAggregates_frame[OF st3] by simp
  also have "\<dots> = nodeToIfcId (snd r1) k"
    using storeyLoop_ids[OF r2] Cons.prems(3) by simp
  also have "\<dots> = nodeToIfcId st k"
    using createBuilding_ids[OF r1] Cons.prems(2) by simp
  finally show ?case .
qed

lemma siteLoop_ids:
  "siteLoop env oh nodes wp ss acc st = Inr r \<Longrightarrow> k \<notin> id' ` set ss \<Longrightarrow>
   \<forall>sn\<in>set ss. k \<notin> id' ` set (childNodes nodes Building (children sn)) \<and>
      (\<forall>b\<in>set (childNodes nodes Building (children sn)).
          k \<notin> id' ` set (childNodes nodes Storey (children b))) \<Longrightarrow>
     nodeToIfcId (snd r) k = nodeToIfcId st k"
proof (induction ss arbitrary: acc st)
  case Nil
  then show ?case by auto
next
  case (Cons x ss)
  from Cons.prems(1) obtain r1 r2 st3 where
    r1: "createSite env oh x (Some wp) st = Inr r1"
    and r2: "buildingLoop env oh nodes x (childNodes nodes Building (children x)) [] (snd r1) = Inr r2"
    and st3: "createRelAggregates env oh (fst r1) (fst r2) (snd r2) = Inr st3"
    and rest: "siteLoop env oh nodes wp ss (acc @ [fst r1]) st3 = Inr r"
    by (auto split: sum.splits)
  have "nodeToIfcId (snd r) k = nodeToIfcId st3 k"
    using Cons.IH[OF rest] Cons.prems(2,3) by simp
  also have "\<dots> = nodeToIfcId (snd r2) k"
    using createRelAggregates_frame[OF st3] by simp
  also have "\<dots> = nodeToIfcId (snd r1) k"
    using buildingLoop_ids[OF r2] Cons.prems(3) by simp
  also have "\<dots> = nodeToIfcId st k"
    using createSite_ids[OF r1] Cons.prems(2) by simp
  finally show ?case .
qed

lemma addProps_frame [simp]: "nodeToIfcId (snd (addProps env kvs acc st)) = nodeToIfcId st"
  by (induction kvs arbitrary: acc st) (simp_all add: Let_def)

lemma addPsets_frame:
  "addPsets env oh el ps st = Inr st' \<Longrightarrow> nodeToIfcId st' = nodeToIfcId st"
proof (induction ps arbitrary: st)
  case Nil
  then show ?case by simp
next
  case (Cons p ps)
  show ?case
  proof (cases "trim (pset_name p) = [] \<or> filter (\<lambda>kv. trim (fst kv) \<noteq> []) (props p) = []")
    case True
    then show ?thesis using Cons by (auto simp: Let_def)
  next
    case False
    then show ?thesis
      using Cons.prems Cons.IH by (auto simp: Let_def addG_eq dest!: Cons.IH)
  qed
qed

lemma objectLoop_frame:
  "objectLoop env oh i objs acc st = Inr r \<Longrightarrow> nodeToIfcId (snd r) = nodeToIfcId st"
proof (induction objs arbitrary: acc st)
  case Nil
  then show ?case by auto
next
  case (Cons obj objs)
  define p where "p = createLocalPlacement (Some i) st"
  from Cons.prems obtain r1 st2 where
    r1: "emitElement env oh (normalizeEntityName (ifcClass obj)) obj (fst p) (snd p) = Inr r1"
    and st2: "addPsetsForElement env oh (fst r1) obj (snd r1) = Inr st2"
    and rest: "objectLoop env oh i objs (acc @ [fst r1]) st2 = Inr r"
    by (auto simp: Let_def p_def split: sum.splits)
  have "nodeToIfcId (snd r) = nodeToIfcId st2"
    using Cons.IH[OF rest] .
  also have "\<dots> = nodeToIfcId (snd r1)"
    using st2 addPsets_frame by (simp add: addPsetsForElement_def)
  also have "\<dots> = nodeToIfcId st"
    using r1 by (auto simp: emitElement_def addG_eq p_def)
  finally show ?case .
qed

subsection \<open>The export only reads the nodes it reaches\<close>

lemma buildingLoop_cong:
  "\<forall>b\<in>set bs. childNodes nodes' Storey (children b) = childNodes nodes Storey (children b) \<Longrightarrow>
   buildingLoop env oh nodes' sn bs acc st = buildingLoop env oh nodes sn bs acc st"
  by (induction bs arbitrary: acc st) (simp_all split: sum.splits)

lemma siteLoop_cong:
  "\<forall>sn\<in>set ss. childNodes nodes' Building (children sn) = childNodes nodes Building (children sn) \<and>
      (\<forall>b\<in>set (childNodes nodes Building (children sn)).
          childNodes nodes' Storey (children b) = childNodes nodes Storey (children b)) \<Longrightarrow>
   siteLoop env oh nodes' wp ss acc st = siteLoop env oh nodes wp ss acc st"
proof (induction ss arbitrary: acc st)
  case Nil
  show ?case by simp
next
  case (Cons x ss)
  have b: "buildingLoop env oh nodes' x (childNodes nodes' Building (children x)) [] st1
      = buildingLoop env oh nodes x (childNodes nodes Building (children x)) [] st1" for st1
    using Cons.prems buildingLoop_cong[of "childNodes nodes Building (children x)" nodes' nodes]
    by simp
  have ih: "siteLoop env oh nodes' wp ss a st1 = siteLoop env oh nodes wp ss a st1" for a st1
    using Cons.IH Cons.prems by simp
  show ?case
    by (simp add: b ih cong: sum.case_cong)
qed

lemma elementLoop_cong:
  assumes "id' v = sk"
    and "\<And>n. getObjectsUnderStorey nodes' n = getObjectsUnderStorey nodes n"
  shows "nodeToIfcId st sk = None \<Longrightarrow>
    elementLoop env oh nodes' (map (\<lambda>n. if id' n = sk then v else n) xs) st
      = elementLoop env oh nodes xs st"
proof (induction xs arbitrary: st)
  case Nil
  show ?case by simp
next
  case (Cons x xs)
  show ?case
  proof (cases "id' x = sk")
    case True
    then show ?thesis using Cons assms(1) by simp
  next
    case False
    show ?thesis
    proof (cases "nodeToIfcId st (id' x)")
      case None
      then show ?thesis using False Cons by simp
    next
      case (Some i)
      show ?thesis
      proof (cases "objectLoop env oh i (getObjectsUnderStorey nodes x) [] st")
        case (Inl e)
        then show ?thesis using False Some Cons assms(2) by simp
      next
        case (Inr r)
        have "nodeToIfcId (snd r) sk = None"
          using objectLoop_frame[OF Inr] Cons.prems by simp
        then show ?thesis
          using False Some Inr Cons.IH Cons.prems assms(2) by (simp add: addG_eq)
      qed
    qed
  qed
qed

subsection \<open>Replacing the children of one entry\<close>

lemma childNodes_update_other_kind:
  assumes "kind_at nodes sk = Some kk" "kind v = kk" "k \<noteq> kk"
  shows "childNodes (AList.update sk v nodes) k ids = childNodes nodes k ids"
  using assms
  by (induction ids)
     (auto simp: childNodes_def map_filter_simps update_conv' kind_at_def split: option.splits)

lemma childNodes_update_absent:
  "sk \<notin> set ids \<Longrightarrow> childNodes (AList.update sk v nodes) k ids = childNodes nodes k ids"
  by (induction ids)
     (auto simp: childNodes_def map_filter_simps update_conv' split: option.splits)

lemma getObjectsUnderStorey_update:
  assumes "kind_at nodes sk = Some Storey" "kind v = Storey"
  shows "getObjectsUnderStorey (AList.update sk v nodes) n = getObjectsUnderStorey nodes n"
proof -
  have o: "childNodes (AList.update sk v nodes) Object ids = childNodes nodes Object ids" for ids
    using childNodes_update_other_kind[OF assms] by simp
  have "(case map_of (AList.update sk v nodes) c of None \<Rightarrow> []
          | Some cg \<Rightarrow> if kind cg \<noteq> ClassGroup then []
                       else childNodes (AList.update sk v nodes) Object (children cg))
      = (case map_of nodes c of None \<Rightarrow> []
          | Some cg \<Rightarrow> if kind cg \<noteq> ClassGroup then [] else childNodes nodes Object (children cg))"
    for c
    using assms by (auto simp: o update_conv' kind_at_def split: option.splits)
  then show ?thesis by (simp add: getObjectsUnderStorey_def)
qed

lemma values_update:
  assumes "distinct (map fst nodes)" "\<forall>e\<in>set nodes. id' (snd e) = fst e"
    "sk \<in> fst ` set nodes"
  shows "map snd (AList.update sk v nodes) = map (\<lambda>n. if id' n = sk then v else n) (map snd nodes)"
  using assms
proof (induction nodes)
  case Nil
  then show ?case by simp
next
  case (Cons e nodes)
  show ?case
  proof (cases "fst e = sk")
    case True
    have "\<forall>x\<in>set nodes. id' (snd x) \<noteq> sk"
      using Cons.prems(1,2) True by force
    then have "map (\<lambda>n. if id' n = sk then v else n) (map snd nodes) = map snd nodes"
      by (induction nodes) auto
    then show ?thesis using True Cons.prems(2) by (cases e) simp
  next
    case False
    then show ?thesis using Cons by (cases e) auto
  qed
qed

text \<open>In an id-keyed map with distinct keys a value determines its entry.\<close>

lemma id_keyed_value:
  assumes "distinct (map fst nodes)" "\<forall>e\<in>set nodes. id' (snd e) = fst e"
  shows "n \<in> set (map snd nodes) \<longleftrightarrow> map_of nodes (id' n) = Some n"
proof
  assume "n \<in> set (map snd nodes)"
  then obtain k where "(k, n) \<in> set nodes" by auto
  moreover from this have "k = id' n" using assms(2) by force
  ultimately show "map_of nodes (id' n) = Some n" using assms(1) by simp
next
  assume "map_of nodes (id' n) = Some n"
  then show "n \<in> set (map snd nodes)" by (force dest: map_of_SomeD)
qed

lemma set_childNodes:
  "set (childNodes nodes k ids) = {n. \<exists>c\<in>set ids. map_of nodes c = Some n \<and> kind n = k}"
  by (induction ids) (auto simp: childNodes_def split: option.splits)

lemma childNodes_in_map:
  assumes "\<forall>e\<in>set nodes. id' (snd e) = fst e" "n \<in> set (childNodes nodes k ids)"
  shows "map_of nodes (id' n) = Some n \<and> kind n = k \<and> id' n \<in> set ids"
proof -
  from assms(2) obtain c where c: "c \<in> set ids" "map_of nodes c = Some n" "kind n = k"
    by (auto simp: set_childNodes)
  then have "id' n = c" using assms(1) by (force dest: map_of_SomeD)
  then show ?thesis using c by simp
qed

lemma commonObjects_frame:
  "commonObjects env = (c, st) \<Longrightarrow> nodeToIfcId st = (\<lambda>_. None)"
  by (auto simp: commonObjects_def Let_def initialSt_def)

lemma spatialStructure_ids:
  assumes "spatialStructure env oh wp nodes project ip st = Inr st'"
    and "k \<notin> id' ` set (childNodes nodes Site (children project))"
    and "\<forall>sn\<in>set (childNodes nodes Site (children project)).
           k \<notin> id' ` set (childNodes nodes Building (children sn)) \<and>
           (\<forall>b\<in>set (childNodes nodes Building (children sn)).
              k \<notin> id' ` set (childNodes nodes Storey (children b)))"
  shows "nodeToIfcId st' k = nodeToIfcId st k"
proof -
  from assms(1) obtain r where
    r: "siteLoop env oh nodes wp (childNodes nodes Site (children project)) [] st = Inr r"
    and a: "createRelAggregates env oh ip (fst r) (snd r) = Inr st'"
    by (auto simp: spatialStructure_def split: sum.splits)
  show ?thesis
    using siteLoop_ids[OF r assms(2,3)] createRelAggregates_frame[OF a] by simp
qed

lemma findProject_in_map:
  assumes "distinct (map fst nodes)" "\<forall>e\<in>set nodes. id' (snd e) = fst e"
    "findProject nodes = Some p"
  shows "map_of nodes (id' p) = Some p"
proof (cases "find (\<lambda>n. kind n = Project) (map snd nodes)")
  case None
  then have "map_of nodes ''project'' = Some p"
    using assms(3) by (simp add: findProject_def)
  then have "p \<in> set (map snd nodes)" by (force dest: map_of_SomeD)
  then show ?thesis using id_keyed_value[OF assms(1,2)] by simp
next
  case (Some q)
  then have "q \<in> set (map snd nodes)"
    by (metis find_Some_iff nth_mem)
  moreover have "p = q" using assms(3) Some by (simp add: findProject_def)
  ultimately show ?thesis using id_keyed_value[OF assms(1,2)] by simp
qed

lemma find_map_stable:
  assumes "\<And>x. x \<in> set xs \<Longrightarrow> P (f x) = P x" "\<And>x. x \<in> set xs \<Longrightarrow> P x \<Longrightarrow> f x = x"
  shows "find P (map f xs) = find P xs"
  using assms by (induction xs) auto

lemma filter_map_stable:
  assumes "\<And>x. x \<in> set xs \<Longrightarrow> P (f x) = P x"
  shows "filter P (map f xs) = map f (filter P xs)"
  using assms by (induction xs) auto

text \<open>
  C10, as amended.  In an id-keyed snapshot, take a Storey entry that is not the node
  selected as project and is not among the storeys that the spatial walk reaches
  (Project, then Site, then Building, then Storey children).  Then the export succeeds
  and its document does not depend on the children of that entry: replacing them by any
  list \<open>cs\<close>, the empty one included, gives the same document, so nothing below such a
  storey is emitted and no error is raised.
\<close>

theorem unreached_storey_not_exported:
  assumes keys: "distinct (map fst nodes)"
    and idk: "\<forall>e\<in>set nodes. id' (snd e) = fst e"
    and st: "map_of nodes sk = Some stn" "kind stn = Storey"
    and pr: "findProject nodes = Some project" "project \<noteq> stn"
    and un: "stn \<notin> set (reachedStoreys nodes project)"
  shows "exportIfc2x3FromTree env (AList.update sk (stn\<lparr>children := cs\<rparr>) nodes) fileName
           = exportIfc2x3FromTree env nodes fileName \<and>
         (\<exists>doc. exportIfc2x3FromTree env nodes fileName = Inr doc)"
proof -
  define v where "v = stn\<lparr>children := cs\<rparr>"
  define nodes' where "nodes' = AList.update sk v nodes"
  define f where "f = (\<lambda>n. if id' n = sk then v else n)"
  have sk_in: "sk \<in> fst ` set nodes"
    using st(1) by (force dest: map_of_SomeD)
  have id_stn: "id' stn = sk"
    using st(1) idk by (force dest: map_of_SomeD)
  have id_v: "id' v = sk" and kind_v: "kind v = Storey"
    using id_stn st(2) by (simp_all add: v_def)
  have ka: "kind_at nodes sk = Some Storey"
    using st by (simp add: kind_at_def)
  have only: "n = stn" if "map_of nodes (id' n) = Some n" "id' n = sk" for n
    using that st(1) by simp
  have vals: "map snd nodes' = map f (map snd nodes)"
    unfolding nodes'_def f_def by (rule values_update[OF keys idk sk_in])
  have f_kind: "kind (f n) = kind n" if "n \<in> set (map snd nodes)" for n
    using that only[of n] id_keyed_value[OF keys idk, of n] kind_v st(2) by (auto simp: f_def)
  have p_in: "map_of nodes (id' project) = Some project"
    by (rule findProject_in_map[OF keys idk pr(1)])
  have p_sk: "id' project \<noteq> sk"
    using only[OF p_in] pr(2) by blast
  \<comment> \<open>the same project is selected\<close>
  have fp: "findProject nodes' = Some project"
  proof -
    have "find (\<lambda>n. kind n = Project) (map snd nodes') = find (\<lambda>n. kind n = Project) (map snd nodes)"
      unfolding vals
    proof (rule find_map_stable)
      fix x assume "x \<in> set (map snd nodes)"
      then show "(kind (f x) = Project) = (kind x = Project)" using f_kind by simp
    next
      fix x assume x: "x \<in> set (map snd nodes)" "kind x = Project"
      then have "id' x \<noteq> sk"
        using only[of x] id_keyed_value[OF keys idk, of x] st(2) by auto
      then show "f x = x" by (simp add: f_def)
    qed
    moreover have "map_of nodes' ''project'' = map_of nodes ''project''"
      if "find (\<lambda>n. kind n = Project) (map snd nodes) = None"
    proof -
      from that pr(1) have "map_of nodes ''project'' = Some project"
        by (simp add: findProject_def)
      then have "''project'' \<noteq> sk" using st(1) pr(2) by auto
      then show ?thesis by (simp add: nodes'_def update_conv')
    qed
    ultimately show ?thesis
      using pr(1) by (auto simp: findProject_def split: option.splits)
  qed
  \<comment> \<open>the spatial walk reads the same nodes\<close>
  have other: "childNodes nodes' k ids = childNodes nodes k ids" if "k \<noteq> Storey" for k ids
    unfolding nodes'_def using childNodes_update_other_kind[OF ka kind_v that] .
  have not_child: "sk \<notin> set (children b)"
    if "sn \<in> set (childNodes nodes Site (children project))"
      "b \<in> set (childNodes nodes Building (children sn))" for sn b
  proof
    assume "sk \<in> set (children b)"
    then have "stn \<in> set (childNodes nodes Storey (children b))"
      using st by (auto simp: set_childNodes)
    then have "stn \<in> set (reachedStoreys nodes project)"
      using that by (auto simp: reachedStoreys_def)
    then show False using un by simp
  qed
  have walk: "spatialStructure env oh wp nodes' project ip s0
      = spatialStructure env oh wp nodes project ip s0" for oh wp ip s0
  proof -
    have "siteLoop env oh nodes' wp (childNodes nodes Site (children project)) [] s0
        = siteLoop env oh nodes wp (childNodes nodes Site (children project)) [] s0"
    proof (rule siteLoop_cong, intro ballI conjI)
      fix sn assume "sn \<in> set (childNodes nodes Site (children project))"
      show "childNodes nodes' Building (children sn) = childNodes nodes Building (children sn)"
        by (simp add: other)
    next
      fix sn b assume "sn \<in> set (childNodes nodes Site (children project))"
        "b \<in> set (childNodes nodes Building (children sn))"
      then show "childNodes nodes' Storey (children b) = childNodes nodes Storey (children b)"
        unfolding nodes'_def using not_child childNodes_update_absent by blast
    qed
    then show ?thesis by (simp add: spatialStructure_def other)
  qed
  \<comment> \<open>the walk leaves the storey without an entity number\<close>
  have no_entry: "nodeToIfcId st' sk = None"
    if "spatialStructure env oh wp nodes project ip s0 = Inr st'" "nodeToIfcId s0 sk = None"
    for oh wp ip s0 st'
  proof -
    have a: "sk \<notin> id' ` set (childNodes nodes k ids)" if "k \<noteq> Storey" for k ids
    proof
      assume "sk \<in> id' ` set (childNodes nodes k ids)"
      then obtain n where n: "n \<in> set (childNodes nodes k ids)" "id' n = sk" by auto
      then have "n = stn" using childNodes_in_map[OF idk n(1)] only by blast
      then show False using childNodes_in_map[OF idk n(1)] st(2) that by simp
    qed
    have b: "sk \<notin> id' ` set (childNodes nodes Storey (children b))"
      if "sn \<in> set (childNodes nodes Site (children project))"
        "b \<in> set (childNodes nodes Building (children sn))" for sn b
    proof
      assume "sk \<in> id' ` set (childNodes nodes Storey (children b))"
      then obtain n where n: "n \<in> set (childNodes nodes Storey (children b))" "id' n = sk" by auto
      then have "id' n \<in> set (children b)" using childNodes_in_map[OF idk n(1)] by simp
      then show False using n(2) not_child[OF that] by simp
    qed
    have "nodeToIfcId st' sk = nodeToIfcId s0 sk"
      by (rule spatialStructure_ids[OF \<open>spatialStructure env oh wp nodes project ip s0 = Inr st'\<close>])
         (use a b in auto)
    then show ?thesis using that(2) by simp
  qed
  \<comment> \<open>the element loop skips it\<close>
  have storeys: "filter (\<lambda>n. kind n = Storey) (map snd nodes')
      = map f (filter (\<lambda>n. kind n = Storey) (map snd nodes))"
    unfolding vals by (rule filter_map_stable) (simp add: f_kind)
  have objs: "getObjectsUnderStorey nodes' n = getObjectsUnderStorey nodes n" for n
    unfolding nodes'_def by (rule getObjectsUnderStorey_update[OF ka kind_v])
  have elems: "elementLoop env oh nodes' (filter (\<lambda>n. kind n = Storey) (map snd nodes')) s0
      = elementLoop env oh nodes (filter (\<lambda>n. kind n = Storey) (map snd nodes)) s0"
    if "nodeToIfcId s0 sk = None" for oh s0
    unfolding storeys f_def by (rule elementLoop_cong[OF id_v objs that])
  \<comment> \<open>together\<close>
  obtain oh wp ctx units st7 where c: "commonObjects env = ((oh, wp, ctx, units), st7)"
    by (metis prod.exhaust)
  obtain r8 where r8: "createProject env oh ctx units project st7 = Inr r8"
    using createProject_total by blast
  have s0: "nodeToIfcId (snd r8) sk = None"
    using commonObjects_frame[OF c] p_sk r8 by (auto simp: createProject_def addG_eq register_def)
  have body: "exportBody env nodes' = exportBody env nodes"
  proof (cases "spatialStructure env oh wp nodes project (fst r8) (snd r8)")
    case (Inl e)
    then show ?thesis
      using fp pr(1) c r8 by (simp add: exportBody_def walk)
  next
    case (Inr st10)
    then show ?thesis
      using fp pr(1) c r8 elems[OF no_entry[OF Inr s0]]
      by (simp add: exportBody_def walk)
  qed
  obtain st' where "exportBody env nodes = Inr st'"
    using exportBody_total[OF pr(1)] by blast
  then show ?thesis
    using body by (simp add: exportIfc2x3FromTree_def nodes'_def v_def)
qed

text \<open>
  C3 (an input that is not 32 hexadecimal digits is refused), evaluated at 32 letters
  \<^verbatim>\<open>z\<close>: the length check passes, every \<^verbatim>\<open>parseInt\<close> gives \<^verbatim>\<open>NaN\<close>, every byte is 0, and the
  codec returns 22 zeros.  The other half of C3 holds: \<open>ifcGuidFromUuid_shape\<close> above gives
  22 characters of the alphabet for every input of length 32 after the dashes are
  removed, and \<open>ifcGuidFromUuid_Inl_iff\<close> shows that every other length is refused.
\<close>

theorem ifcGuidFromUuid_accepts_non_hex:
  "ifcGuidFromUuid ''zzzzzzzzzzzzzzzzzzzzzzzzzzzzzzzz'' = Inr ''0000000000000000000000''"
  by code_simp

text \<open>
  C2 as stated fails for a snapshot without a node of kind Project whose key \<^verbatim>\<open>project\<close>
  holds a Site: the exporter takes that entry as the project and writes a document.
\<close>

theorem export_without_project_kind_counterexample:
  "list_all (\<lambda>n. kind n \<noteq> Project) (map snd project_by_id) \<and>
   map_sum id entityNames (exportBody env0 project_by_id)
     = Inr [''IFCOWNERHISTORY'', ''IFCCARTESIANPOINT'', ''IFCAXIS2PLACEMENT3D'',
            ''IFCLOCALPLACEMENT'', ''IFCGEOMETRICREPRESENTATIONCONTEXT'', ''IFCSIUNIT'',
            ''IFCUNITASSIGNMENT'', ''IFCPROJECT'']"
  by code_simp

text \<open>
  C10 as stated fails when the fallback by key selects a node of kind Storey as the
  project: the walk reaches no storey, yet the element loop finds the project's entity
  number under that storey's id and emits the object below it.
\<close>

theorem storey_as_project_counterexample:
  "findProject storey_as_project = Some (bare ''project'' Storey None [''g'']) \<and>
   reachedStoreys storey_as_project (bare ''project'' Storey None [''g'']) = [] \<and>
   map_sum id entityNames (exportBody env0 storey_as_project)
     = Inr [''IFCOWNERHISTORY'', ''IFCCARTESIANPOINT'', ''IFCAXIS2PLACEMENT3D'',
            ''IFCLOCALPLACEMENT'', ''IFCGEOMETRICREPRESENTATIONCONTEXT'', ''IFCSIUNIT'',
            ''IFCUNITASSIGNMENT'', ''IFCPROJECT'', ''IFCCARTESIANPOINT'',
            ''IFCAXIS2PLACEMENT3D'', ''IFCLOCALPLACEMENT'', ''IFCBUILDINGELEMENTPROXY'',
            ''IFCRELCONTAINEDINSPATIALSTRUCTURE'']"
  by code_simp

text \<open>C2 at the empty snapshot and at the snapshot with the key \<^verbatim>\<open>project\<close>.\<close>

theorem exportIfc2x3FromTree_missing_project_witness:
  "exportIfc2x3FromTree env0 [] ''t.ifc'' = Inl missing_project_error \<and>
   (\<exists>doc. exportIfc2x3FromTree env0 project_by_id ''t.ifc'' = Inr doc)"
  using exportIfc2x3FromTree_missing_project[of "[]" env0 "''t.ifc''"]
    exportIfc2x3FromTree_missing_project[of project_by_id env0 "''t.ifc''"]
  by (simp add: project_by_id_def)

text \<open>C10 at a snapshot with one reached storey and one detached storey that holds an object.\<close>

theorem unreached_storey_not_exported_witness:
  "findProject detached_storey = Some (bare ''p'' Project None [''s'']) \<and>
   reachedStoreys detached_storey (bare ''p'' Project None [''s''])
     = [bare ''st'' Storey (Some ''b'') []] \<and>
   exportIfc2x3FromTree env0
       (AList.update ''x'' ((bare ''x'' Storey None [''g''])\<lparr>children := []\<rparr>) detached_storey)
       ''t.ifc''
     = exportIfc2x3FromTree env0 detached_storey ''t.ifc'' \<and>
   (\<exists>doc. exportIfc2x3FromTree env0 detached_storey ''t.ifc'' = Inr doc)"
proof -
  have fp: "findProject detached_storey = Some (bare ''p'' Project None [''s''])"
    by (simp add: findProject_def detached_storey_def bare_def)
  have rs: "reachedStoreys detached_storey (bare ''p'' Project None [''s''])
     = [bare ''st'' Storey (Some ''b'') []]"
    by (simp add: reachedStoreys_def childNodes_def detached_storey_def bare_def)
  have "distinct (map fst detached_storey)"
    and "\<forall>e\<in>set detached_storey. id' (snd e) = fst e"
    and "map_of detached_storey ''x'' = Some (bare ''x'' Storey None [''g''])"
    and "kind (bare ''x'' Storey None [''g'']) = Storey"
    and "bare ''p'' Project None [''s''] \<noteq> bare ''x'' Storey None [''g'']"
    and "bare ''x'' Storey None [''g'']
           \<notin> set (reachedStoreys detached_storey (bare ''p'' Project None [''s'']))"
    unfolding rs by (simp_all add: detached_storey_def bare_def)
  from unreached_storey_not_exported[OF this(1,2,3,4) fp this(5,6),
      where cs = "[]" and env = env0 and fileName = "''t.ifc''"]
  show ?thesis using fp rs by simp
qed

section \<open>Properties of the importer\<close>

lemma has_key_update [simp]: "has_key (AList.update k v d) j \<longleftrightarrow> j = k \<or> has_key d j"
  by (simp add: has_key_def update_conv')

lemma has_key_Nil [simp]: "\<not> has_key [] j"
  by (simp add: has_key_def)

lemma fixed_ids_distinct:
  "distinct [''root'', defaultProjectId, synthBuildingId, synthStoreyId, fallbackGroupId]"
  by (simp add: defaultProjectId_def synthBuildingId_def synthStoreyId_def fallbackGroupId_def
      groupId_def)

lemma objectId_not_fixed:
  "objectId mgr mid eid \<notin> set [''root'', defaultProjectId, synthBuildingId, synthStoreyId, fallbackGroupId]"
  by (simp add: objectId_def defaultProjectId_def synthBuildingId_def synthStoreyId_def
      fallbackGroupId_def groupId_def)

lemma fallback_on_root:
  "ensureFallbackSpatialContainers cmp [(''root'', rootNode)] =
     (synthStoreyId,
      [(''root'', rootNode\<lparr>children := [defaultProjectId]\<rparr>),
       (defaultProjectId,
          \<lparr> id' = defaultProjectId, kind = Project, name = ''Imported Project'',
            parentId = Some ''root'', children = [synthBuildingId], ifcClass = None, tag = None,
            psets = None, ifc = None \<rparr>),
       (synthBuildingId,
          \<lparr> id' = synthBuildingId, kind = Building, name = ''Building 0'',
            parentId = Some defaultProjectId, children = [synthStoreyId], ifcClass = None,
            tag = None, psets = None, ifc = None \<rparr>),
       (synthStoreyId,
          \<lparr> id' = synthStoreyId, kind = Storey, name = ''Storey 0'',
            parentId = Some synthBuildingId, children = [], ifcClass = None, tag = None,
            psets = None, ifc = None \<rparr>)])"
proof -
  have ne: "defaultProjectId \<noteq> ''root''" "synthBuildingId \<noteq> ''root''"
    "synthBuildingId \<noteq> defaultProjectId" "synthStoreyId \<noteq> ''root''"
    "synthStoreyId \<noteq> defaultProjectId" "synthStoreyId \<noteq> synthBuildingId"
    using fixed_ids_distinct by auto
  note ne' = ne ne[symmetric]
  show ?thesis
    unfolding ensureFallbackSpatialContainers_def ensureSyntheticStorey_def
      synthStoreyId_def[symmetric]
    by (simp add: Let_def has_key_def upsertNode_def ensureChild_def rootNode_def ne'
        createIfMissing_def container_def)
qed

lemma storeyFor_on_root:
  "storeyFor cmp ''root'' None [(''root'', rootNode)]
     = ensureFallbackSpatialContainers cmp [(''root'', rootNode)]"
  by (simp add: storeyFor_def buildingOf_def truthy_def rootNode_def Let_def)

lemma ifcClassForElement_const: "ifcClassForElement ty = ''IfcBuildingElementProxy''"
  by (simp add: ifcClassForElement_def)

lemma leafStep_on_root:
  "fst (leafStep mgr mid eid tu ''root'' None [(''root'', rootNode)]) = synthStoreyId \<and>
   map shape (snd (leafStep mgr mid eid tu ''root'' None [(''root'', rootNode)]))
     = placeholderChain (objectId mgr mid eid)"
proof -
  have ne: "defaultProjectId \<noteq> ''root''" "synthBuildingId \<noteq> ''root''"
    "synthBuildingId \<noteq> defaultProjectId" "synthStoreyId \<noteq> ''root''"
    "synthStoreyId \<noteq> defaultProjectId" "synthStoreyId \<noteq> synthBuildingId"
    "fallbackGroupId \<noteq> ''root''" "fallbackGroupId \<noteq> defaultProjectId"
    "fallbackGroupId \<noteq> synthBuildingId" "fallbackGroupId \<noteq> synthStoreyId"
    "objectId mgr mid eid \<noteq> ''root''" "objectId mgr mid eid \<noteq> defaultProjectId"
    "objectId mgr mid eid \<noteq> synthBuildingId" "objectId mgr mid eid \<noteq> synthStoreyId"
    "objectId mgr mid eid \<noteq> fallbackGroupId"
    using fixed_ids_distinct objectId_not_fixed[of mgr mid eid] by auto
  note ne' = ne ne[symmetric]
  have g: "groupId synthStoreyId (ifcClassForElement tu) = fallbackGroupId"
    by (simp add: fallbackGroupId_def ifcClassForElement_const)
  show ?thesis
    unfolding leafStep_def storeyFor_on_root fallback_on_root
    by (simp add: Let_def g has_key_def upsertNode_def ensureChild_def rootNode_def ne'
        shape_def placeholderChain_def createIfMissing_def container_def classGroupNode_def
        objectNode_def)
qed

subsection \<open>What the three primitives of the importer change\<close>

lemma withChildOnce_fields [simp]:
  "kind (withChildOnce c g) = kind g"
  "id' (withChildOnce c g) = id' g"
  "parentId (withChildOnce c g) = parentId g"
  "ifcClass (withChildOnce c g) = ifcClass g"
  "c \<in> set (children (withChildOnce c g))"
  by (simp_all add: withChildOnce_def)

lemma mergeNode_fields [simp]:
  "kind (mergeNode cmp ex n) = kind n"
  "id' (mergeNode cmp ex n) = id' n"
  "parentId (mergeNode cmp ex n) = (case parentId n of None \<Rightarrow> parentId ex | Some q \<Rightarrow> Some q)"
  "ifcClass (mergeNode cmp ex n) = (case ifcClass ex of None \<Rightarrow> ifcClass n | Some c \<Rightarrow> Some c)"
  by (simp_all add: mergeNode_def)

lemma map_of_upsertNode:
  "map_of (upsertNode cmp n d) k
     = (if k = id' n
        then Some (case map_of d k of None \<Rightarrow> n | Some ex \<Rightarrow> mergeNode cmp ex n)
        else map_of d k)"
  by (simp add: upsertNode_def update_conv' split: option.splits)

lemma has_key_upsertNode [simp]:
  "has_key (upsertNode cmp n d) k \<longleftrightarrow> k = id' n \<or> has_key d k"
  by (simp add: has_key_def map_of_upsertNode)

lemma map_of_upsertNode_other:
  "k \<noteq> id' n \<Longrightarrow> map_of (upsertNode cmp n d) k = map_of d k"
  by (simp add: map_of_upsertNode)

lemma kind_at_upsertNode:
  "kind_at (upsertNode cmp n d) k = (if k = id' n then Some (kind n) else kind_at d k)"
  by (simp add: kind_at_def map_of_upsertNode split: option.splits)

lemma ctl_at_upsertNode:
  "parentId n \<noteq> None \<Longrightarrow>
   ctl_at (upsertNode cmp n d) k
     = (if k = id' n then Some (kind n, id' n, parentId n) else ctl_at d k)"
  by (auto simp: ctl_at_def map_of_upsertNode split: option.splits)

lemma parent_of_upsertNode:
  "parentId n \<noteq> None \<Longrightarrow>
   parent_of (upsertNode cmp n d) k = (if k = id' n then parentId n else parent_of d k)"
  by (auto simp: parent_of_def map_of_upsertNode split: option.splits)

lemma class_at_upsertNode:
  "class_at (upsertNode cmp n d) k
     = (if k = id' n then (case class_at d k of None \<Rightarrow> ifcClass n | Some c \<Rightarrow> Some c)
        else class_at d k)"
  by (auto simp: class_at_def map_of_upsertNode split: option.splits)

lemma map_of_ensureChild:
  "map_of (ensureChild p c d) k
     = (if k = p
        then map_option (withChildOnce c) (map_of d k)
        else map_of d k)"
  by (simp add: ensureChild_def update_conv' withChildOnce_def split: option.splits)

lemma has_key_ensureChild [simp]: "has_key (ensureChild p c d) k \<longleftrightarrow> has_key d k"
  by (cases "map_of d k") (auto simp: has_key_def map_of_ensureChild)

lemma kind_at_ensureChild [simp]: "kind_at (ensureChild p c d) k = kind_at d k"
  by (cases "map_of d k") (auto simp: kind_at_def map_of_ensureChild)

lemma ctl_at_ensureChild [simp]: "ctl_at (ensureChild p c d) k = ctl_at d k"
  by (cases "map_of d k") (auto simp: ctl_at_def map_of_ensureChild)

lemma parent_of_ensureChild [simp]: "parent_of (ensureChild p c d) k = parent_of d k"
  by (cases "map_of d k") (auto simp: parent_of_def map_of_ensureChild)

lemma class_at_ensureChild [simp]: "class_at (ensureChild p c d) k = class_at d k"
  by (cases "map_of d k") (auto simp: class_at_def map_of_ensureChild)

lemma children_ensureChild:
  "has_key d p \<Longrightarrow> \<exists>g. map_of (ensureChild p c d) p = Some g \<and> c \<in> set (children g)"
  by (auto simp: has_key_def map_of_ensureChild split: option.splits)

lemma map_of_ensureChild_fields:
  "map_of (ensureChild p c d) k = Some m \<Longrightarrow>
     \<exists>m0. map_of d k = Some m0 \<and> kind m = kind m0 \<and> parentId m = parentId m0
        \<and> ifcClass m = ifcClass m0 \<and> id' m = id' m0"
  by (cases "map_of d k") (auto simp: map_of_ensureChild split: if_splits)

lemma ensureNode_present [simp]: "has_key d i \<Longrightarrow> ensureNode i fb d = d"
  by (simp add: ensureNode_def)

lemma has_key_ensureNode [simp]: "has_key (ensureNode i fb d) k \<longleftrightarrow> k = i \<or> has_key d k"
  by (auto simp: ensureNode_def)


subsection \<open>Import writes no class but the proxy class\<close>






lemma container_fields [simp]:
  "id' (container i k nm p) = i" "kind (container i k nm p) = k"
  "parentId (container i k nm p) = Some p" "ifcClass (container i k nm p) = None"
  by (simp_all add: container_def)

lemma classGroupNode_fields [simp]:
  "id' (classGroupNode sid c) = groupId sid c" "kind (classGroupNode sid c) = ClassGroup"
  "parentId (classGroupNode sid c) = Some sid" "ifcClass (classGroupNode sid c) = Some c"
  by (simp_all add: classGroupNode_def)

lemma objectNode_fields [simp]:
  "id' (objectNode mgr mid eid tu c g) = objectId mgr mid eid"
  "kind (objectNode mgr mid eid tu c g) = Object"
  "parentId (objectNode mgr mid eid tu c g) = Some g"
  "ifcClass (objectNode mgr mid eid tu c g) = Some c"
  by (simp_all add: objectNode_def Let_def)

lemma spatialNode_fields [simp]:
  "id' (spatialNode mgr mid k eid tu p) = stableSpatialId k (safeGetGlobalId mgr mid eid) eid"
  "kind (spatialNode mgr mid k eid tu p) = k"
  "parentId (spatialNode mgr mid k eid tu p) = Some p"
  "ifcClass (spatialNode mgr mid k eid tu p) = None"
  by (simp_all add: spatialNode_def Let_def)







subsection \<open>Where a leaf element is put\<close>

lemma class_at_absent: "\<not> has_key d k \<Longrightarrow> class_at d k = None"
  by (simp add: has_key_def class_at_def)

lemma class_at_createIfMissing:
  "class_at (createIfMissing cmp n p d) k
     = (if k = id' n \<and> \<not> has_key d k then ifcClass n else class_at d k)"
  by (auto simp: createIfMissing_def class_at_upsertNode class_at_absent)

lemma has_key_createIfMissing [simp]:
  "has_key (createIfMissing cmp n p d) k \<longleftrightarrow> k = id' n \<or> has_key d k"
  by (auto simp: createIfMissing_def)


lemma class_at_createIfMissing_plain:
  "ifcClass n = None \<Longrightarrow> class_at (createIfMissing cmp n p d) k = class_at d k"
  by (auto simp: class_at_createIfMissing class_at_absent)

lemma class_at_ensureSyntheticStorey:
  "class_at (snd (ensureSyntheticStorey cmp b d)) k = class_at d k"
  by (simp add: ensureSyntheticStorey_def Let_def class_at_createIfMissing_plain)

lemma class_at_ensureFallback:
  "class_at (snd (ensureFallbackSpatialContainers cmp d)) k = class_at d k"
  by (simp add: ensureFallbackSpatialContainers_def Let_def class_at_ensureSyntheticStorey
      class_at_createIfMissing_plain)

lemma class_at_storeyFor: "class_at (snd (storeyFor cmp rp cur d)) k = class_at d k"
proof (cases "truthy cur")
  case True
  then show ?thesis by (auto simp: storeyFor_def truthy_def split: option.splits)
next
  case False
  show ?thesis
  proof (cases "truthy (buildingOf rp d)")
    case True
    then show ?thesis
      using False
      by (auto simp: storeyFor_def Let_def truthy_def class_at_ensureSyntheticStorey
          split: option.splits)
  next
    case b: False
    then show ?thesis
      using False by (simp add: storeyFor_def Let_def class_at_ensureFallback)
  qed
qed

lemma walk_leaf:
  "spatialKindFromIfcType (toUpperCase ty) = None \<Longrightarrow>
   walk mgr mid pid cur (SpatialNode eid ty []) d
     = snd (leafStep mgr mid eid (toUpperCase ty) (case pid of None \<Rightarrow> ''root'' | Some q \<Rightarrow> q) cur d)"
  by (simp add: Let_def)


subsection \<open>A single leaf as the whole hierarchy\<close>

text \<open>
  When the hierarchy is one element without children and of no spatial type, the import
  into the empty tree returns exactly six entries: the root, the three placeholders, one
  class group and the object, each the only child of the one before.
\<close>

lemma import_bare_leaf:
  assumes "getSpatialStructure mgr mid = Some (SpatialNode eid ty [])"
    and "spatialKindFromIfcType (toUpperCase ty) = None"
  shows "\<exists>d. importIfcIntoCoordinator (Some mgr) mid [] = Inr d \<and>
    map shape d = placeholderChain (objectId mgr mid eid)"
proof (intro exI conjI)
  show "importIfcIntoCoordinator (Some mgr) mid []
      = Inr (snd (leafStep mgr mid eid (toUpperCase ty) ''root'' None [(''root'', rootNode)]))"
    using assms by (simp add: importIfcIntoCoordinator_def ensureNode_def)
  show "map shape (snd (leafStep mgr mid eid (toUpperCase ty) ''root'' None [(''root'', rootNode)]))
      = placeholderChain (objectId mgr mid eid)"
    using leafStep_on_root by simp
qed

subsection \<open>Key prefixes\<close>

lemma startsWith_literal: "startsWith (p @ w) p"
  by (simp add: startsWith_def)

lemma startsWith_length: "startsWith v p \<Longrightarrow> length p \<le> length v"
proof -
  assume "startsWith v p"
  then have "length (take (length p) v) = length p" by (simp add: startsWith_def)
  then show ?thesis by simp
qed

lemma startsWith_append: "startsWith v p \<Longrightarrow> startsWith (v @ w) p"
  using startsWith_length[of v p] by (simp add: startsWith_def)

lemma startsWith_take: "startsWith v p \<Longrightarrow> n \<le> length p \<Longrightarrow> take n v = take n p"
proof -
  assume a: "startsWith v p" and n: "n \<le> length p"
  from a have e: "take (length p) v = p" by (simp add: startsWith_def)
  have "take n (take (length p) v) = take n v" using n by (simp add: min_def)
  then show ?thesis unfolding e by simp
qed

lemma objkey_tag: "objkey k \<Longrightarrow> take 6 k = ''ifc:ob''"
  using startsWith_take[of k "''ifc:obj:''" 6] by (simp add: objkey_def)

lemma storeykey_tag: "storeykey k \<Longrightarrow> take 6 k = ''ifc:st''"
  using startsWith_take[of k "''ifc:storey:''" 6] by (simp add: storeykey_def)

lemma wellKeyed_tag:
  "wellKeyed k kd \<Longrightarrow>
   take 6 k = (case kd of Root \<Rightarrow> [] | Project \<Rightarrow> ''ifc:pr'' | Site \<Rightarrow> ''ifc:si''
               | Building \<Rightarrow> ''ifc:bu'' | Storey \<Rightarrow> ''ifc:st'' | ClassGroup \<Rightarrow> ''ifc:st''
               | Object \<Rightarrow> ''ifc:ob'')"
  using startsWith_take[of k "''ifc:project:''" 6] startsWith_take[of k "''ifc:site:''" 6]
    startsWith_take[of k "''ifc:building:''" 6] storeykey_tag[of k] objkey_tag[of k]
  by (cases kd) (simp_all add: wellKeyed_def)



lemma objkey_objectId: "objkey (objectId mgr mid eid)"
  by (simp add: objkey_def objectId_def startsWith_def)

lemma storeykey_groupId: "storeykey sid \<Longrightarrow> storeykey (groupId sid c)"
  by (simp add: storeykey_def groupId_def startsWith_append)

lemma spatialKind_cases:
  "spatialKindFromIfcType t = Some k \<Longrightarrow> k = Project \<or> k = Site \<or> k = Building \<or> k = Storey"
  by (auto simp: spatialKindFromIfcType_def split: if_splits)

lemma wellKeyed_stableSpatialId:
  "k = Project \<or> k = Site \<or> k = Building \<or> k = Storey \<Longrightarrow>
   spatialWrite (stableSpatialId k g e) k"
  by (auto simp: spatialWrite_def wellKeyed_def stableSpatialId_def storeykey_def startsWith_def)

lemma spatialWrite_fixed:
  "spatialWrite defaultProjectId Project" "spatialWrite synthBuildingId Building"
  "spatialWrite (''ifc:storey:synthetic:'' @ b) Storey"
  by (simp_all add: spatialWrite_def wellKeyed_def defaultProjectId_def synthBuildingId_def
      storeykey_def startsWith_def)

lemma storeykey_synthetic: "storeykey (''ifc:storey:synthetic:'' @ b)"
  by (simp add: storeykey_def startsWith_def)

subsection \<open>Keys, children and classes only grow\<close>

lemma grows_refl: "grows d d"
  by (simp add: grows_def)

lemma grows_trans: "grows d d' \<Longrightarrow> grows d' d'' \<Longrightarrow> grows d d''"
  unfolding grows_def
proof (intro allI impI)
  fix k g
  assume a: "\<forall>k g. map_of d k = Some g \<longrightarrow>
        (\<exists>g'. map_of d' k = Some g' \<and> set (children g) \<subseteq> set (children g') \<and>
              (ifcClass g \<noteq> None \<longrightarrow> ifcClass g' = ifcClass g))"
    and b: "\<forall>k g. map_of d' k = Some g \<longrightarrow>
        (\<exists>g'. map_of d'' k = Some g' \<and> set (children g) \<subseteq> set (children g') \<and>
              (ifcClass g \<noteq> None \<longrightarrow> ifcClass g' = ifcClass g))"
    and g: "map_of d k = Some g"
  from a g obtain g' where g': "map_of d' k = Some g'" "set (children g) \<subseteq> set (children g')"
    "ifcClass g \<noteq> None \<longrightarrow> ifcClass g' = ifcClass g" by blast
  from b g'(1) obtain g'' where g'': "map_of d'' k = Some g''"
    "set (children g') \<subseteq> set (children g'')"
    "ifcClass g' \<noteq> None \<longrightarrow> ifcClass g'' = ifcClass g'" by blast
  show "\<exists>g'. map_of d'' k = Some g' \<and> set (children g) \<subseteq> set (children g') \<and>
              (ifcClass g \<noteq> None \<longrightarrow> ifcClass g' = ifcClass g)"
    using g'(2,3) g'' by (intro exI[of _ g'']) auto
qed

lemma grows_has_key: "grows d d' \<Longrightarrow> has_key d k \<Longrightarrow> has_key d' k"
  by (fastforce simp: grows_def has_key_def)

lemma grows_listed: "grows d d' \<Longrightarrow> listed d p c \<Longrightarrow> listed d' p c"
  by (fastforce simp: grows_def listed_def split: option.splits)


lemma grows_upsertNode: "grows d (upsertNode cmp n d)"
  by (auto simp: grows_def map_of_upsertNode mergeNode_def)

lemma grows_ensureChild: "grows d (ensureChild p c d)"
  by (auto simp: grows_def map_of_ensureChild withChildOnce_def)

lemma grows_ensureNode: "grows d (ensureNode i fb d)"
  by (auto simp: grows_def ensureNode_def update_conv' has_key_def)

lemma grows_createIfMissing: "grows d (createIfMissing cmp n p d)"
  unfolding createIfMissing_def
  by (auto intro: grows_refl grows_trans[OF grows_upsertNode grows_ensureChild])

lemma grows_ensureSyntheticStorey: "grows d (snd (ensureSyntheticStorey cmp b d))"
  by (simp add: ensureSyntheticStorey_def Let_def grows_createIfMissing)

lemma grows_ensureFallback: "grows d (snd (ensureFallbackSpatialContainers cmp d))"
  unfolding ensureFallbackSpatialContainers_def Let_def
  by (rule grows_trans[OF grows_createIfMissing
        grows_trans[OF grows_createIfMissing grows_ensureSyntheticStorey]])

lemma grows_storeyFor: "grows d (snd (storeyFor cmp rp cur d))"
  by (auto simp: storeyFor_def Let_def grows_refl grows_ensureFallback
      grows_ensureSyntheticStorey split: option.splits)

lemma grows_spatialStep: "grows d (snd (spatialStep mgr mid k eid tu pid d))"
  unfolding spatialStep_def Let_def snd_conv
  by (rule grows_trans[OF grows_ensureNode grows_trans[OF grows_upsertNode grows_ensureChild]])

lemma grows_leafStep: "grows d (snd (leafStep mgr mid eid tu rp cur d))"
  unfolding leafStep_def Let_def snd_conv
  by (rule grows_trans[OF grows_storeyFor
        grows_trans[OF grows_createIfMissing grows_trans[OF grows_upsertNode grows_ensureChild]]])

lemma walk_spatial:
  "spatialKindFromIfcType (toUpperCase ty) = Some k \<Longrightarrow>
   walk mgr mid pid cur (SpatialNode eid ty chs) d
     = walks mgr mid (Some (fst (spatialStep mgr mid k eid (toUpperCase ty) pid d)))
         (if k = Storey then Some (fst (spatialStep mgr mid k eid (toUpperCase ty) pid d)) else cur)
         chs (snd (spatialStep mgr mid k eid (toUpperCase ty) pid d))"
  by (simp add: Let_def)

lemma walk_element:
  "spatialKindFromIfcType (toUpperCase ty) = None \<Longrightarrow>
   walk mgr mid pid cur (SpatialNode eid ty chs) d
     = walks mgr mid (Some (rpOf pid))
         (Some (fst (leafStep mgr mid eid (toUpperCase ty) (rpOf pid) cur d)))
         chs (snd (leafStep mgr mid eid (toUpperCase ty) (rpOf pid) cur d))"
  by (simp add: Let_def rpOf_def)

lemma grows_walk: "grows d (walk mgr mid pid cur sp d)"
  and grows_walks: "grows d (walks mgr mid pid cur sps d)"
proof (induction mgr mid pid cur sp d and mgr mid pid cur sps d rule: walk_walks.induct)
  case (1 mgr mid pid currentStoreyId eid ty chs draft)
  show ?case
  proof (cases "spatialKindFromIfcType (toUpperCase ty)")
    case None
    show ?thesis
      unfolding walk_element[OF None]
      by (rule grows_trans[OF grows_leafStep]) (use 1(1)[OF refl None refl refl] in \<open>simp add: rpOf_def\<close>)
  next
    case (Some k)
    show ?thesis
      unfolding walk_spatial[OF Some]
      by (rule grows_trans[OF grows_spatialStep]) (rule 1(2)[OF refl Some refl])
  qed
next
  case (2 mgr mid pid currentStoreyId draft)
  then show ?case by (simp add: grows_refl)
next
  case (3 mgr mid pid currentStoreyId ch rest draft)
  show ?case
    unfolding walks.simps by (rule grows_trans[OF 3(1) 3(2)])
qed

subsection \<open>Which entries a step writes\<close>

lemma writes_refl: "writes Q d d"
  by (simp add: writes_def)

lemma writes_trans: "writes Q d d' \<Longrightarrow> writes Q d' d'' \<Longrightarrow> writes Q d d''"
  unfolding writes_def
proof
  fix k
  assume a: "\<forall>k. ctl_at d' k = ctl_at d k \<or> (\<exists>kd p. ctl_at d' k = Some (kd, k, Some p) \<and> Q k kd)"
    and b: "\<forall>k. ctl_at d'' k = ctl_at d' k \<or> (\<exists>kd p. ctl_at d'' k = Some (kd, k, Some p) \<and> Q k kd)"
  from b have "ctl_at d'' k = ctl_at d' k \<or> (\<exists>kd p. ctl_at d'' k = Some (kd, k, Some p) \<and> Q k kd)" ..
  moreover from a have "ctl_at d' k = ctl_at d k \<or> (\<exists>kd p. ctl_at d' k = Some (kd, k, Some p) \<and> Q k kd)" ..
  ultimately show "ctl_at d'' k = ctl_at d k \<or> (\<exists>kd p. ctl_at d'' k = Some (kd, k, Some p) \<and> Q k kd)"
    by metis
qed

lemma writes_mono: "writes Q d d' \<Longrightarrow> (\<And>k kd. Q k kd \<Longrightarrow> R k kd) \<Longrightarrow> writes R d d'"
  unfolding writes_def by blast

lemma writes_upsertNode:
  "parentId n \<noteq> None \<Longrightarrow> Q (id' n) (kind n) \<Longrightarrow> writes Q d (upsertNode cmp n d)"
  by (auto simp: writes_def ctl_at_upsertNode)

lemma writes_ensureChild: "writes Q d (ensureChild p c d)"
  by (simp add: writes_def)

lemma writes_createIfMissing:
  "parentId n \<noteq> None \<Longrightarrow> Q (id' n) (kind n) \<Longrightarrow> writes Q d (createIfMissing cmp n p d)"
  unfolding createIfMissing_def
  by (auto intro: writes_refl writes_trans[OF writes_upsertNode writes_ensureChild])

lemma writes_ensureSyntheticStorey:
  "writes spatialWrite d (snd (ensureSyntheticStorey cmp b d))"
  unfolding ensureSyntheticStorey_def Let_def snd_conv
proof (rule writes_createIfMissing)
  show "parentId (container (''ifc:storey:synthetic:'' @ b) Storey ''Storey 0'' b) \<noteq> None"
    by simp
  show "spatialWrite (id' (container (''ifc:storey:synthetic:'' @ b) Storey ''Storey 0'' b))
     (kind (container (''ifc:storey:synthetic:'' @ b) Storey ''Storey 0'' b))"
    unfolding container_fields by (rule spatialWrite_fixed(3))
qed

lemma writes_ensureFallback:
  "writes spatialWrite d (snd (ensureFallbackSpatialContainers cmp d))"
  unfolding ensureFallbackSpatialContainers_def Let_def
  by (intro writes_trans[OF writes_createIfMissing
        writes_trans[OF writes_createIfMissing writes_ensureSyntheticStorey]])
     (simp_all add: spatialWrite_fixed)

lemma writes_storeyFor: "writes spatialWrite d (snd (storeyFor cmp rp cur d))"
  by (auto simp: storeyFor_def Let_def writes_refl writes_ensureFallback
      writes_ensureSyntheticStorey split: option.splits)

lemma fst_ensureSyntheticStorey: "fst (ensureSyntheticStorey cmp b d) = ''ifc:storey:synthetic:'' @ b"
  by (simp add: ensureSyntheticStorey_def Let_def)

lemma fst_ensureFallback: "fst (ensureFallbackSpatialContainers cmp d) = synthStoreyId"
  by (simp add: ensureFallbackSpatialContainers_def Let_def fst_ensureSyntheticStorey
      synthStoreyId_def)

lemma storeykey_fst_ess: "storeykey (fst (ensureSyntheticStorey cmp b d))"
  unfolding fst_ensureSyntheticStorey by (rule storeykey_synthetic)

lemma storeykey_fst_efc: "storeykey (fst (ensureFallbackSpatialContainers cmp d))"
  unfolding ensureFallbackSpatialContainers_def Let_def by (rule storeykey_fst_ess)

lemma storeykey_storeyFor:
  "(case cur of None \<Rightarrow> True | Some c \<Rightarrow> storeykey c) \<Longrightarrow> storeykey (fst (storeyFor cmp rp cur d))"
  by (auto simp: storeyFor_def Let_def storeykey_fst_ess storeykey_fst_efc split: option.splits)

lemma writes_spatialStep:
  assumes "k = Project \<or> k = Site \<or> k = Building \<or> k = Storey"
    and "has_key d ''root''" "has_key d (rpOf pid)"
  shows "writes spatialWrite d (snd (spatialStep mgr mid k eid tu pid d))"
proof -
  define rp where "rp = (if k = Project then ''root'' else rpOf pid)"
  have h: "has_key d rp" using assms(2,3) by (simp add: rp_def)
  have "snd (spatialStep mgr mid k eid tu pid d)
      = ensureChild rp (id' (spatialNode mgr mid k eid tu rp))
          (upsertNode (localeCompare mgr) (spatialNode mgr mid k eid tu rp)
             (ensureNode rp (rootNode\<lparr>id' := rp\<rparr>) d))"
    by (simp add: spatialStep_def Let_def rp_def rpOf_def)
  then have e: "snd (spatialStep mgr mid k eid tu pid d)
      = ensureChild rp (id' (spatialNode mgr mid k eid tu rp))
          (upsertNode (localeCompare mgr) (spatialNode mgr mid k eid tu rp) d)"
    unfolding ensureNode_present[OF h] .
  show ?thesis
    unfolding e
    by (rule writes_trans[OF writes_upsertNode writes_ensureChild])
       (simp_all add: wellKeyed_stableSpatialId[OF assms(1)])
qed

lemma fst_spatialStep:
  "fst (spatialStep mgr mid k eid tu pid d) = stableSpatialId k (safeGetGlobalId mgr mid eid) eid"
  by (simp add: spatialStep_def Let_def)

lemma has_key_fst_spatialStep:
  "has_key (snd (spatialStep mgr mid k eid tu pid d)) (fst (spatialStep mgr mid k eid tu pid d))"
  by (simp add: spatialStep_def Let_def)

lemma fst_leafStep:
  "fst (leafStep mgr mid eid tu rp cur d) = fst (storeyFor (localeCompare mgr) rp cur d)"
  by (simp add: leafStep_def Let_def)

subsection \<open>The parent and the current storey stay usable along the walk\<close>

lemma ready_grows: "ready pid cur d \<Longrightarrow> grows d d' \<Longrightarrow> ready pid cur d'"
  by (simp add: ready_def grows_has_key)

lemma ready_spatialStep:
  assumes "ready pid cur d" "k = Project \<or> k = Site \<or> k = Building \<or> k = Storey"
  shows "ready (Some (fst (spatialStep mgr mid k eid tu pid d)))
           (if k = Storey then Some (fst (spatialStep mgr mid k eid tu pid d)) else cur)
           (snd (spatialStep mgr mid k eid tu pid d))"
proof -
  have "has_key (snd (spatialStep mgr mid k eid tu pid d)) ''root''"
    using assms(1) grows_has_key[OF grows_spatialStep] by (simp add: ready_def)
  moreover have "k = Storey \<Longrightarrow> storeykey (fst (spatialStep mgr mid k eid tu pid d))"
    using wellKeyed_stableSpatialId[of Storey]
    by (simp add: fst_spatialStep spatialWrite_def wellKeyed_def)
  ultimately show ?thesis
    using assms(1) has_key_fst_spatialStep[of mgr mid k eid tu pid d]
    by (simp add: ready_def rpOf_def)
qed

lemma ready_leafStep:
  assumes "ready pid cur d"
  shows "ready (Some (rpOf pid)) (Some (fst (leafStep mgr mid eid tu (rpOf pid) cur d)))
           (snd (leafStep mgr mid eid tu (rpOf pid) cur d))"
proof -
  have "storeykey (fst (leafStep mgr mid eid tu (rpOf pid) cur d))"
    unfolding fst_leafStep using assms by (intro storeykey_storeyFor) (simp add: ready_def)
  then show ?thesis
    using assms grows_has_key[OF grows_leafStep] by (simp add: ready_def rpOf_def)
qed




lemma leafStep_unfold:
  "snd (leafStep mgr mid eid tu rp cur d) =
     ensureChild (groupId (fst (leafStep mgr mid eid tu rp cur d)) ''IfcBuildingElementProxy'')
       (objectId mgr mid eid)
       (upsertNode (localeCompare mgr)
          (objectNode mgr mid eid tu ''IfcBuildingElementProxy''
             (groupId (fst (leafStep mgr mid eid tu rp cur d)) ''IfcBuildingElementProxy''))
          (createIfMissing (localeCompare mgr)
             (classGroupNode (fst (leafStep mgr mid eid tu rp cur d)) ''IfcBuildingElementProxy'')
             (fst (leafStep mgr mid eid tu rp cur d))
             (snd (storeyFor (localeCompare mgr) rp cur d))))"
  by (simp add: leafStep_def Let_def ifcClassForElement_const)

lemma writes_leaf_group:
  assumes "case cur of None \<Rightarrow> True | Some c \<Rightarrow> storeykey c"
  shows "writes spatialWrite d
     (createIfMissing (localeCompare mgr)
        (classGroupNode (fst (leafStep mgr mid eid tu rp cur d)) ''IfcBuildingElementProxy'')
        (fst (leafStep mgr mid eid tu rp cur d))
        (snd (storeyFor (localeCompare mgr) rp cur d)))"
proof (rule writes_trans[OF writes_storeyFor writes_createIfMissing])
  show "parentId (classGroupNode (fst (leafStep mgr mid eid tu rp cur d))
      ''IfcBuildingElementProxy'') \<noteq> None"
    by simp
  have "storeykey (fst (leafStep mgr mid eid tu rp cur d))"
    unfolding fst_leafStep by (rule storeykey_storeyFor[OF assms])
  then show "spatialWrite
     (id' (classGroupNode (fst (leafStep mgr mid eid tu rp cur d)) ''IfcBuildingElementProxy''))
     (kind (classGroupNode (fst (leafStep mgr mid eid tu rp cur d)) ''IfcBuildingElementProxy''))"
    by (simp add: spatialWrite_def wellKeyed_def storeykey_groupId)
qed


lemma writes_leafStep:
  assumes "case cur of None \<Rightarrow> True | Some c \<Rightarrow> storeykey c"
  shows "writes wellKeyed d (snd (leafStep mgr mid eid tu rp cur d))"
  unfolding leafStep_unfold
proof (rule writes_trans[OF _ writes_trans[OF writes_upsertNode writes_ensureChild]])
  show "writes wellKeyed d
     (createIfMissing (localeCompare mgr)
        (classGroupNode (fst (leafStep mgr mid eid tu rp cur d)) ''IfcBuildingElementProxy'')
        (fst (leafStep mgr mid eid tu rp cur d))
        (snd (storeyFor (localeCompare mgr) rp cur d)))"
    by (rule writes_mono[OF writes_leaf_group[OF assms]]) (simp add: spatialWrite_def)
qed (simp_all add: wellKeyed_def objkey_objectId)



subsection \<open>Every visited element stays placed\<close>





lemma writes_walk:
  "ready pid cur d \<Longrightarrow> writes wellKeyed d (walk mgr mid pid cur sp d)"
  and writes_walks:
  "ready pid cur d \<Longrightarrow> writes wellKeyed d (walks mgr mid pid cur sps d)"
proof (induction mgr mid pid cur sp d and mgr mid pid cur sps d rule: walk_walks.induct)
  case (1 mgr mid pid currentStoreyId eid ty chs draft)
  have r: "ready pid currentStoreyId draft" by (rule 1(3))
  show ?case
  proof (cases "spatialKindFromIfcType (toUpperCase ty)")
    case None
    have c: "case currentStoreyId of None \<Rightarrow> True | Some c \<Rightarrow> storeykey c"
      using r by (simp add: ready_def)
    show ?thesis
      unfolding walk_element[OF None]
      by (rule writes_trans[OF writes_leafStep[OF c]
            1(1)[OF refl None refl refl, unfolded rpOf_def[symmetric], OF ready_leafStep[OF r]]])
  next
    case (Some k)
    note k4 = spatialKind_cases[OF Some]
    have w: "writes wellKeyed draft (snd (spatialStep mgr mid k eid (toUpperCase ty) pid draft))"
      using r by (intro writes_mono[OF writes_spatialStep[OF k4]])
        (simp_all add: ready_def spatialWrite_def)
    show ?thesis
      unfolding walk_spatial[OF Some]
      by (rule writes_trans[OF w 1(2)[OF refl Some refl ready_spatialStep[OF r k4]]])
  qed
next
  case (2 mgr mid pid currentStoreyId draft)
  then show ?case by (simp add: writes_refl)
next
  case (3 mgr mid pid currentStoreyId ch rest draft)
  show ?case
    unfolding walks.simps
    by (rule writes_trans[OF 3(1)[OF 3(3)] 3(2)[OF ready_grows[OF 3(3) grows_walk]]])
qed



















subsection \<open>A leaf element below projects and sites only\<close>

lemma has_key_kind: "has_key d k \<longleftrightarrow> kind_at d k \<noteq> None"
  by (simp add: has_key_def kind_at_def)

lemma ctl_same_fields:
  "ctl_at d' k = ctl_at d k \<Longrightarrow> kind_at d' k = kind_at d k \<and> parent_of d' k = parent_of d k"
  by (cases "map_of d k"; cases "map_of d' k") (auto simp: ctl_at_def kind_at_def parent_of_def)

lemma ctl_at_upsertNode_other: "k \<noteq> id' n \<Longrightarrow> ctl_at (upsertNode cmp n d) k = ctl_at d k"
  by (simp add: ctl_at_def map_of_upsertNode_other)

lemma ctl_at_createIfMissing_other:
  "k \<noteq> id' n \<Longrightarrow> ctl_at (createIfMissing cmp n p d) k = ctl_at d k"
  by (simp add: createIfMissing_def ctl_at_upsertNode_other)

lemma kind_at_createIfMissing:
  "kind_at (createIfMissing cmp n p d) k
     = (if k = id' n \<and> \<not> has_key d k then Some (kind n) else kind_at d k)"
  by (auto simp: createIfMissing_def kind_at_upsertNode has_key_kind)

lemma listed_ensureChild_new: "has_key d p \<Longrightarrow> listed (ensureChild p c d) p c"
  using children_ensureChild[of d p c] by (auto simp: listed_def)

lemma under_kept:
  "under d p c kd \<Longrightarrow> grows d d' \<Longrightarrow> ctl_at d' c = ctl_at d c \<Longrightarrow> under d' p c kd"
  using ctl_same_fields[of d' c d] by (simp add: under_def grows_listed)

lemma under_createIfMissing:
  "under d p c kd \<Longrightarrow> c \<noteq> id' n \<Longrightarrow> under (createIfMissing cmp n q d) p c kd"
  by (rule under_kept[OF _ grows_createIfMissing]) (simp_all add: ctl_at_createIfMissing_other)

lemma under_upsert:
  "under d p c kd \<Longrightarrow> c \<noteq> id' n \<Longrightarrow> under (ensureChild g j (upsertNode cmp n d)) p c kd"
  by (rule under_kept[OF _ grows_trans[OF grows_upsertNode grows_ensureChild]])
     (simp_all add: ctl_at_upsertNode_other)

lemma under_new:
  assumes "parentId n = Some p" "has_key d p \<or> p = id' n"
  shows "under (ensureChild p (id' n) (upsertNode cmp n d)) p (id' n) (kind n)"
proof -
  have pn: "parentId n \<noteq> None" using assms(1) by simp
  have "has_key (upsertNode cmp n d) p" using assms(2) by auto
  then have "listed (ensureChild p (id' n) (upsertNode cmp n d)) p (id' n)"
    by (rule listed_ensureChild_new)
  then show ?thesis
    using assms(1) by (simp add: under_def kind_at_upsertNode parent_of_upsertNode[OF pn])
qed

lemma under_created:
  "\<not> has_key d (id' n) \<Longrightarrow> has_key d p \<Longrightarrow> parentId n = Some p \<Longrightarrow>
   under (createIfMissing cmp n p d) p (id' n) (kind n)"
  by (simp add: createIfMissing_def under_new)

lemma besides_createIfMissing:
  "besides d A \<Longrightarrow> besides (createIfMissing cmp n p d) (insert (id' n, kind n) A)"
  unfolding besides_def kind_at_createIfMissing by (auto split: if_splits)

lemma besides_upsert:
  "besides d A \<Longrightarrow> besides (ensureChild g j (upsertNode cmp n d)) (insert (id' n, kind n) A)"
  unfolding besides_def by (auto simp: kind_at_upsertNode split: if_splits)

lemma sites_only_besides: "sites_only d \<Longrightarrow> besides d {}"
  unfolding sites_only_def besides_def by blast

lemma sites_only_keys:
  "sites_only d \<Longrightarrow> has_key d k \<Longrightarrow>
   k = ''root'' \<or> startsWith k ''ifc:project:'' \<or> startsWith k ''ifc:site:''"
  unfolding sites_only_def has_key_kind by blast

lemma sites_only_project:
  assumes "sites_only d" "has_key d defaultProjectId"
  shows "under d ''root'' defaultProjectId Project"
proof -
  from assms(2) obtain kd where k: "kind_at d defaultProjectId = Some kd"
    by (auto simp: has_key_kind)
  have "defaultProjectId \<noteq> ''root''" "\<not> startsWith defaultProjectId ''ifc:site:''"
    by (simp_all add: defaultProjectId_def startsWith_def)
  then show ?thesis
    using assms(1) k unfolding sites_only_def by blast
qed

lemma buildingOf_None:
  assumes "\<And>k. kind_at d k \<noteq> Some Building"
  shows "buildingOf rp d = None"
proof (cases "map_of d rp")
  case None
  then show ?thesis by (simp add: buildingOf_def)
next
  case (Some p)
  have a: "kind p \<noteq> Building" using assms[of rp] Some by (simp add: kind_at_def)
  have b: "Option.bind (parentId p) (kind_at d) \<noteq> Some Building"
    using assms by (cases "parentId p") simp_all
  show ?thesis using Some a b by (simp add: buildingOf_def)
qed

lemma sites_only_no_building: "sites_only d \<Longrightarrow> kind_at d k \<noteq> Some Building"
  unfolding sites_only_def by fastforce

lemma spatialStep_present:
  assumes "has_key d ''root''" "has_key d (rpOf pid)"
  shows "snd (spatialStep mgr mid k eid tu pid d)
      = ensureChild (if k = Project then ''root'' else rpOf pid)
          (id' (spatialNode mgr mid k eid tu (if k = Project then ''root'' else rpOf pid)))
          (upsertNode (localeCompare mgr)
             (spatialNode mgr mid k eid tu (if k = Project then ''root'' else rpOf pid)) d)"
proof -
  define rp where "rp = (if k = Project then ''root'' else rpOf pid)"
  have h: "has_key d rp" using assms by (simp add: rp_def)
  have "snd (spatialStep mgr mid k eid tu pid d)
      = ensureChild rp (id' (spatialNode mgr mid k eid tu rp))
          (upsertNode (localeCompare mgr) (spatialNode mgr mid k eid tu rp)
             (ensureNode rp (rootNode\<lparr>id' := rp\<rparr>) d))"
    by (simp add: spatialStep_def Let_def rp_def rpOf_def)
  then have "snd (spatialStep mgr mid k eid tu pid d)
      = ensureChild rp (id' (spatialNode mgr mid k eid tu rp))
          (upsertNode (localeCompare mgr) (spatialNode mgr mid k eid tu rp) d)"
    unfolding ensureNode_present[OF h] .
  then show ?thesis
    unfolding rp_def .
qed

lemma sites_only_spatialStep:
  assumes so: "sites_only d" and hr: "has_key d ''root''" and hp: "has_key d (rpOf pid)"
    and k: "k = Project \<or> k = Site"
  shows "sites_only (snd (spatialStep mgr mid k eid tu pid d))"
proof -
  define rp where "rp = (if k = Project then ''root'' else rpOf pid)"
  define n where "n = spatialNode mgr mid k eid tu rp"
  define d' where "d' = ensureChild rp (id' n) (upsertNode (localeCompare mgr) n d)"
  have e: "snd (spatialStep mgr mid k eid tu pid d) = d'"
    unfolding spatialStep_present[OF hr hp] d'_def n_def rp_def ..
  have h: "has_key d rp" using hr hp by (simp add: rp_def)
  have pn: "parentId n = Some rp" by (simp add: n_def)
  have kn: "kind n = k" by (simp add: n_def)
  have u: "under d' rp (id' n) k"
    unfolding d'_def using under_new[OF pn, of d] h kn by simp
  have pre: "k = Project \<Longrightarrow> startsWith (id' n) ''ifc:project:''"
    "k = Site \<Longrightarrow> startsWith (id' n) ''ifc:site:''"
    by (simp_all add: n_def stableSpatialId_def startsWith_def)
  have kd: "\<And>j. kind_at d' j = (if j = id' n then Some k else kind_at d j)"
    by (simp add: d'_def kind_at_upsertNode kn)
  show ?thesis
    unfolding e sites_only_def
  proof (intro allI impI)
    fix j kj assume a: "kind_at d' j = Some kj"
    show "(kj = Root \<and> j = ''root'') \<or>
        (kj = Project \<and> startsWith j ''ifc:project:'' \<and> under d' ''root'' j Project) \<or>
        (kj = Site \<and> startsWith j ''ifc:site:'')"
    proof (cases "j = id' n")
      case True
      then have "kj = k" using a kd by simp
      then show ?thesis
        using k pre u True by (auto simp: rp_def)
    next
      case False
      then have "kind_at d j = Some kj" using a kd by simp
      with so consider "kj = Root \<and> j = ''root''"
        | "kj = Project \<and> startsWith j ''ifc:project:'' \<and> under d ''root'' j Project"
        | "kj = Site \<and> startsWith j ''ifc:site:''"
        unfolding sites_only_def by blast
      then show ?thesis
      proof cases
        case 2
        then have "under d' ''root'' j Project"
          unfolding d'_def using False by (intro under_upsert) simp_all
        then show ?thesis using 2 by simp
      qed simp_all
    qed
  qed
qed

lemma fixed_ids_ne:
  "defaultProjectId \<noteq> synthBuildingId" "defaultProjectId \<noteq> synthStoreyId"
  "defaultProjectId \<noteq> fallbackGroupId" "synthBuildingId \<noteq> synthStoreyId"
  "synthBuildingId \<noteq> fallbackGroupId" "synthStoreyId \<noteq> fallbackGroupId"
  "synthBuildingId \<noteq> defaultProjectId" "synthStoreyId \<noteq> defaultProjectId"
  "fallbackGroupId \<noteq> defaultProjectId" "synthStoreyId \<noteq> synthBuildingId"
  "fallbackGroupId \<noteq> synthBuildingId" "fallbackGroupId \<noteq> synthStoreyId"
  using fixed_ids_distinct by auto

lemma objectId_ne:
  "objectId mgr mid eid \<noteq> defaultProjectId" "objectId mgr mid eid \<noteq> synthBuildingId"
  "objectId mgr mid eid \<noteq> synthStoreyId" "objectId mgr mid eid \<noteq> fallbackGroupId"
  "defaultProjectId \<noteq> objectId mgr mid eid" "synthBuildingId \<noteq> objectId mgr mid eid"
  "synthStoreyId \<noteq> objectId mgr mid eid" "fallbackGroupId \<noteq> objectId mgr mid eid"
  using fixed_ids_distinct objectId_not_fixed[of mgr mid eid] by auto

lemma sites_only_absent:
  assumes "sites_only d"
  shows "\<not> has_key d synthBuildingId" "\<not> has_key d synthStoreyId" "\<not> has_key d fallbackGroupId"
    "\<not> has_key d (objectId mgr mid eid)"
proof -
  have "\<And>k. take 6 k \<noteq> ''ifc:pr'' \<Longrightarrow> take 6 k \<noteq> ''ifc:si'' \<Longrightarrow> k \<noteq> ''root'' \<Longrightarrow> \<not> has_key d k"
    using sites_only_keys[OF assms] startsWith_take[of _ "''ifc:project:''" 6]
      startsWith_take[of _ "''ifc:site:''" 6]
    by fastforce
  then show "\<not> has_key d synthBuildingId" "\<not> has_key d synthStoreyId"
    "\<not> has_key d fallbackGroupId" "\<not> has_key d (objectId mgr mid eid)"
    by (simp_all add: synthBuildingId_def synthStoreyId_def fallbackGroupId_def groupId_def
        objectId_def)
qed

lemma leaf_under_sites:
  fixes mgr mid eid tu rp d
  assumes so: "sites_only d" and hr: "has_key d ''root''"
  defines "r \<equiv> leafStep mgr mid eid tu rp None d"
  shows "under (snd r) ''root'' defaultProjectId Project \<and>
     under (snd r) defaultProjectId synthBuildingId Building \<and>
     under (snd r) synthBuildingId synthStoreyId Storey \<and>
     under (snd r) synthStoreyId fallbackGroupId ClassGroup \<and>
     under (snd r) fallbackGroupId (objectId mgr mid eid) Object \<and>
     besides (snd r) {(synthBuildingId, Building), (synthStoreyId, Storey),
       (fallbackGroupId, ClassGroup), (objectId mgr mid eid, Object)}"
proof -
  define cmp where "cmp = localeCompare mgr"
  define oid where "oid = objectId mgr mid eid"
  define n1 where "n1 = container defaultProjectId Project ''Imported Project'' ''root''"
  define n2 where "n2 = container synthBuildingId Building ''Building 0'' defaultProjectId"
  define n3 where "n3 = container synthStoreyId Storey ''Storey 0'' synthBuildingId"
  define n4 where "n4 = classGroupNode synthStoreyId ''IfcBuildingElementProxy''"
  define n5 where "n5 = objectNode mgr mid eid tu ''IfcBuildingElementProxy'' fallbackGroupId"
  define d1 where "d1 = createIfMissing cmp n1 ''root'' d"
  define d2 where "d2 = createIfMissing cmp n2 defaultProjectId d1"
  define d3 where "d3 = createIfMissing cmp n3 synthBuildingId d2"
  define d4 where "d4 = createIfMissing cmp n4 synthStoreyId d3"
  define d5 where "d5 = ensureChild fallbackGroupId oid (upsertNode cmp n5 d4)"
  have i: "id' n1 = defaultProjectId" "id' n2 = synthBuildingId" "id' n3 = synthStoreyId"
    "id' n4 = fallbackGroupId" "id' n5 = oid"
    "kind n1 = Project" "kind n2 = Building" "kind n3 = Storey" "kind n4 = ClassGroup"
    "kind n5 = Object"
    "parentId n1 = Some ''root''" "parentId n2 = Some defaultProjectId"
    "parentId n3 = Some synthBuildingId" "parentId n4 = Some synthStoreyId"
    "parentId n5 = Some fallbackGroupId"
    by (simp_all add: n1_def n2_def n3_def n4_def n5_def fallbackGroupId_def oid_def)
  have b: "buildingOf rp d = None"
    by (rule buildingOf_None) (rule sites_only_no_building[OF so])
  have f: "ensureFallbackSpatialContainers cmp d = (synthStoreyId, d3)"
    by (simp add: ensureFallbackSpatialContainers_def ensureSyntheticStorey_def Let_def
        d1_def d2_def d3_def n1_def n2_def n3_def synthStoreyId_def)
  have sf: "storeyFor cmp rp None d = (synthStoreyId, d3)"
    using b f by (simp add: storeyFor_def truthy_def Let_def)
  have r: "snd r = d5"
    unfolding r_def leafStep_def Let_def cmp_def[symmetric] sf
    by (simp add: ifcClassForElement_const d5_def d4_def n4_def n5_def oid_def fallbackGroupId_def)
  note ne = fixed_ids_ne objectId_ne[of mgr mid eid, folded oid_def]
  note ab = sites_only_absent(1-3)[OF so] sites_only_absent(4)[OF so, of mgr mid eid, folded oid_def]
  have k1: "\<And>k. has_key d1 k \<longleftrightarrow> k = defaultProjectId \<or> has_key d k"
    by (simp add: d1_def i)
  have k2: "\<And>k. has_key d2 k \<longleftrightarrow> k = synthBuildingId \<or> has_key d1 k"
    by (simp add: d2_def i)
  have k3: "\<And>k. has_key d3 k \<longleftrightarrow> k = synthStoreyId \<or> has_key d2 k"
    by (simp add: d3_def i)
  have k4: "\<And>k. has_key d4 k \<longleftrightarrow> k = fallbackGroupId \<or> has_key d3 k"
    by (simp add: d4_def i)
  have u1: "under d1 ''root'' defaultProjectId Project"
  proof (cases "has_key d defaultProjectId")
    case True
    then show ?thesis using sites_only_project[OF so True] by (simp add: d1_def createIfMissing_def i)
  next
    case False
    then show ?thesis
      unfolding d1_def using under_created[of d n1 "''root''" cmp] hr by (simp add: i)
  qed
  have u2: "under d2 defaultProjectId synthBuildingId Building"
    unfolding d2_def using under_created[of d1 n2 defaultProjectId cmp] ab ne
    by (simp add: i k1)
  have u3: "under d3 synthBuildingId synthStoreyId Storey"
    unfolding d3_def using under_created[of d2 n3 synthBuildingId cmp] ab ne
    by (simp add: i k1 k2)
  have u4: "under d4 synthStoreyId fallbackGroupId ClassGroup"
    unfolding d4_def using under_created[of d3 n4 synthStoreyId cmp] ab ne
    by (simp add: i k1 k2 k3)
  have u5: "under d5 fallbackGroupId oid Object"
    unfolding d5_def using under_new[of n5 fallbackGroupId d4 cmp]
    by (simp add: i k4)
  have "under d5 ''root'' defaultProjectId Project"
    unfolding d5_def d4_def d3_def d2_def
    by (intro under_upsert under_createIfMissing u1) (simp_all add: i ne)
  moreover have "under d5 defaultProjectId synthBuildingId Building"
    unfolding d5_def d4_def d3_def
    by (intro under_upsert under_createIfMissing u2) (simp_all add: i ne)
  moreover have "under d5 synthBuildingId synthStoreyId Storey"
    unfolding d5_def d4_def
    by (intro under_upsert under_createIfMissing u3) (simp_all add: i ne)
  moreover have "under d5 synthStoreyId fallbackGroupId ClassGroup"
    unfolding d5_def
    by (intro under_upsert under_createIfMissing u4) (simp_all add: i ne)
  moreover have "besides d5 {(synthBuildingId, Building), (synthStoreyId, Storey),
       (fallbackGroupId, ClassGroup), (oid, Object)}"
  proof -
    have "besides d1 {}"
      using besides_createIfMissing[OF sites_only_besides[OF so], of cmp n1 "''root''"]
      by (auto simp: besides_def d1_def i)
    then have "besides d2 {(synthBuildingId, Building)}"
      using besides_createIfMissing[of d1 "{}" cmp n2 defaultProjectId] by (simp add: d2_def i)
    then have "besides d3 {(synthStoreyId, Storey), (synthBuildingId, Building)}"
      using besides_createIfMissing[of d2 _ cmp n3 synthBuildingId] by (simp add: d3_def i)
    then have "besides d4 {(fallbackGroupId, ClassGroup), (synthStoreyId, Storey),
        (synthBuildingId, Building)}"
      using besides_createIfMissing[of d3 _ cmp n4 synthStoreyId] by (simp add: d4_def i)
    then have "besides d5 {(oid, Object), (fallbackGroupId, ClassGroup), (synthStoreyId, Storey),
        (synthBuildingId, Building)}"
      using besides_upsert[of d4 _ fallbackGroupId oid cmp n5] by (simp add: d5_def i)
    then show ?thesis by (auto simp: besides_def)
  qed
  ultimately show ?thesis
    using u5 unfolding r oid_def by simp
qed

lemma sites_only_start: "sites_only (ensureNode ''root'' rootNode [])"
  by (simp add: sites_only_def ensureNode_def kind_at_def rootNode_def)

lemma chain_walk:
  assumes "\<forall>a\<in>set anc. spatialKindFromIfcType (toUpperCase (snd a)) = Some Project \<or>
             spatialKindFromIfcType (toUpperCase (snd a)) = Some Site"
    and "spatialKindFromIfcType (toUpperCase ty) = None"
    and "sites_only d" "has_key d ''root''" "has_key d (rpOf pid)"
  shows "under (walk mgr mid pid None (chain anc (SpatialNode eid ty [])) d)
       ''root'' defaultProjectId Project \<and>
     under (walk mgr mid pid None (chain anc (SpatialNode eid ty [])) d)
       defaultProjectId synthBuildingId Building \<and>
     under (walk mgr mid pid None (chain anc (SpatialNode eid ty [])) d)
       synthBuildingId synthStoreyId Storey \<and>
     under (walk mgr mid pid None (chain anc (SpatialNode eid ty [])) d)
       synthStoreyId fallbackGroupId ClassGroup \<and>
     under (walk mgr mid pid None (chain anc (SpatialNode eid ty [])) d)
       fallbackGroupId (objectId mgr mid eid) Object \<and>
     besides (walk mgr mid pid None (chain anc (SpatialNode eid ty [])) d)
       {(synthBuildingId, Building), (synthStoreyId, Storey),
        (fallbackGroupId, ClassGroup), (objectId mgr mid eid, Object)}"
  using assms
proof (induction anc arbitrary: pid d)
  case Nil
  have "walk mgr mid pid None (chain [] (SpatialNode eid ty [])) d
      = snd (leafStep mgr mid eid (toUpperCase ty) (rpOf pid) None d)"
    using walk_element[OF Nil(2)] by simp
  then show ?case
    using leaf_under_sites[OF Nil(3,4), of mgr mid eid "toUpperCase ty" "rpOf pid"] by simp
next
  case (Cons a as)
  from Cons(2) obtain k where k: "spatialKindFromIfcType (toUpperCase (snd a)) = Some k"
    and k2: "k = Project \<or> k = Site" by auto
  define r where "r = spatialStep mgr mid k (fst a) (toUpperCase (snd a)) pid d"
  have w: "walk mgr mid pid None (chain (a # as) (SpatialNode eid ty [])) d
      = walk mgr mid (Some (fst r)) None (chain as (SpatialNode eid ty [])) (snd r)"
    using walk_spatial[OF k, of mgr mid pid None "fst a" "[chain as (SpatialNode eid ty [])]" d] k2
    by (auto simp: r_def)
  have s: "sites_only (snd r)"
    unfolding r_def by (rule sites_only_spatialStep[OF Cons(4,5,6) k2])
  have h1: "has_key (snd r) ''root''"
    unfolding r_def by (rule grows_has_key[OF grows_spatialStep Cons(5)])
  have h2: "has_key (snd r) (rpOf (Some (fst r)))"
    unfolding r_def using has_key_fst_spatialStep by (simp add: rpOf_def)
  have a': "\<forall>a\<in>set as. spatialKindFromIfcType (toUpperCase (snd a)) = Some Project \<or>
             spatialKindFromIfcType (toUpperCase (snd a)) = Some Site"
    using Cons(2) by simp
  show ?case
    unfolding w by (rule Cons(1)[OF a' Cons(3) s h1 h2])
qed

text \<open>
  C8, as amended.  For every attribute source and every model id: when the external
  hierarchy is a chain of Project and Site elements that ends in a single element without
  children whose type tag is none of the four spatial tags, the import into the empty
  tree succeeds, and the result holds the placeholder Project, Building and Storey under
  the fixed ids \<open>defaultProjectId\<close>, \<open>synthBuildingId\<close> and \<open>synthStoreyId\<close> (closed strings
  that mention neither the source nor any random value), each of its kind, with the one
  before as \<^verbatim>\<open>parentId\<close> and listed among that one's children, then one ClassGroup under
  the Storey and the element's Object under the ClassGroup.  They are the only Building,
  Storey, ClassGroup and Object of the result.
\<close>

theorem import_single_leaf:
  assumes "getSpatialStructure mgr mid = Some (chain anc (SpatialNode eid ty []))"
    and "\<forall>a\<in>set anc. spatialKindFromIfcType (toUpperCase (snd a)) = Some Project \<or>
             spatialKindFromIfcType (toUpperCase (snd a)) = Some Site"
    and "spatialKindFromIfcType (toUpperCase ty) = None"
  shows "\<exists>d. importIfcIntoCoordinator (Some mgr) mid [] = Inr d \<and>
     under d ''root'' defaultProjectId Project \<and>
     under d defaultProjectId synthBuildingId Building \<and>
     under d synthBuildingId synthStoreyId Storey \<and>
     under d synthStoreyId fallbackGroupId ClassGroup \<and>
     under d fallbackGroupId (objectId mgr mid eid) Object \<and>
     (\<forall>k. kind_at d k = Some Building \<longrightarrow> k = synthBuildingId) \<and>
     (\<forall>k. kind_at d k = Some Storey \<longrightarrow> k = synthStoreyId) \<and>
     (\<forall>k. kind_at d k = Some ClassGroup \<longrightarrow> k = fallbackGroupId) \<and>
     (\<forall>k. kind_at d k = Some Object \<longrightarrow> k = objectId mgr mid eid)"
proof -
  define d where "d = walk mgr mid (Some ''root'') None (chain anc (SpatialNode eid ty []))
      (ensureNode ''root'' rootNode [])"
  have i: "importIfcIntoCoordinator (Some mgr) mid [] = Inr d"
    using assms(1) by (simp add: importIfcIntoCoordinator_def Let_def d_def)
  have c: "under d ''root'' defaultProjectId Project \<and>
     under d defaultProjectId synthBuildingId Building \<and>
     under d synthBuildingId synthStoreyId Storey \<and>
     under d synthStoreyId fallbackGroupId ClassGroup \<and>
     under d fallbackGroupId (objectId mgr mid eid) Object \<and>
     besides d {(synthBuildingId, Building), (synthStoreyId, Storey),
        (fallbackGroupId, ClassGroup), (objectId mgr mid eid, Object)}"
    unfolding d_def
    by (rule chain_walk[OF assms(2,3) sites_only_start]) (simp_all add: rpOf_def)
  then have b: "besides d {(synthBuildingId, Building), (synthStoreyId, Storey),
        (fallbackGroupId, ClassGroup), (objectId mgr mid eid, Object)}" by simp
  have u: "(\<forall>k. kind_at d k = Some Building \<longrightarrow> k = synthBuildingId) \<and>
     (\<forall>k. kind_at d k = Some Storey \<longrightarrow> k = synthStoreyId) \<and>
     (\<forall>k. kind_at d k = Some ClassGroup \<longrightarrow> k = fallbackGroupId) \<and>
     (\<forall>k. kind_at d k = Some Object \<longrightarrow> k = objectId mgr mid eid)"
    using b unfolding besides_def by fastforce
  show ?thesis
    using i c u by (intro exI[of _ d]) simp
qed

text \<open>
  C8 as stated fails below a Storey: the leaf has no Building among its ancestors, yet it
  is put under the storey it is found in, and no placeholder is created.
\<close>

theorem leaf_under_storey_counterexample:
  "map_sum id (map (\<lambda>e. (fst e, kind (snd e))))
     (importIfcIntoCoordinator (Some (mgr0 (Some project_storey_leaf))) 0 [])
   = Inr [(''root'', Root), (''ifc:project:1'', Project), (''ifc:storey:2'', Storey),
          (''ifc:storey:2__IfcBuildingElementProxy'', ClassGroup), (''ifc:obj:0:7'', Object)]"
  by code_simp

text \<open>
  C8 for an element of type \<^verbatim>\<open>IfcWall\<close> with express id 7 and no attributes, below a site of
  a project.
\<close>

theorem import_single_leaf_witness:
  "\<exists>d. importIfcIntoCoordinator (Some (mgr0 (Some project_site_leaf))) 0 [] = Inr d \<and>
     under d ''root'' defaultProjectId Project \<and>
     under d defaultProjectId synthBuildingId Building \<and>
     under d synthBuildingId synthStoreyId Storey \<and>
     under d synthStoreyId fallbackGroupId ClassGroup \<and>
     under d fallbackGroupId ''ifc:obj:0:7'' Object"
proof -
  have a: "getSpatialStructure (mgr0 (Some project_site_leaf)) 0
      = Some (chain [(1, ''IfcProject''), (2, ''IfcSite'')] (SpatialNode 7 ''IfcWall'' []))"
    by (simp add: mgr0_def project_site_leaf_def)
  have b1: "spatialKindFromIfcType (toUpperCase ''IfcProject'') = Some Project"
    by code_simp
  have b2: "spatialKindFromIfcType (toUpperCase ''IfcSite'') = Some Site"
    by code_simp
  have b: "\<forall>a\<in>set [(1::nat, ''IfcProject''), (2, ''IfcSite'')].
      spatialKindFromIfcType (toUpperCase (snd a)) = Some Project \<or>
      spatialKindFromIfcType (toUpperCase (snd a)) = Some Site"
    using b1 b2 by simp
  have c: "spatialKindFromIfcType (toUpperCase ''IfcWall'') = None"
    by code_simp
  have o: "objectId (mgr0 (Some project_site_leaf)) 0 7 = ''ifc:obj:0:7''"
    by code_simp
  show ?thesis
    using import_single_leaf[OF a b c] unfolding o by blast
qed

subsection \<open>Two runs of the importer, side by side\<close>

lemma same_growth_refl: "same_growth d1 d1 d2 d2"
  unfolding same_growth_def by (rule exI[of _ "{}"]) simp

lemma same_growth_trans:
  assumes "same_growth d1 d1' d2 d2'" "same_growth d1' d1'' d2' d2''"
  shows "same_growth d1 d1'' d2 d2''"
proof -
  from assms(1) obtain T where T: "\<forall>k. has_key d1' k = (k \<in> T \<or> has_key d1 k)"
    "\<forall>k. has_key d2' k = (k \<in> T \<or> has_key d2 k)"
    unfolding same_growth_def by blast
  from assms(2) obtain U where U: "\<forall>k. has_key d1'' k = (k \<in> U \<or> has_key d1' k)"
    "\<forall>k. has_key d2'' k = (k \<in> U \<or> has_key d2' k)"
    unfolding same_growth_def by blast
  show ?thesis
    unfolding same_growth_def
    by (rule exI[of _ "T \<union> U"]) (use T U in auto)
qed

lemma same_growth_insert:
  assumes "\<forall>k. has_key d1' k = (k = i \<or> has_key d1 k)" "\<forall>k. has_key d2' k = (k = i \<or> has_key d2 k)"
  shows "same_growth d1 d1' d2 d2'"
  unfolding same_growth_def by (rule exI[of _ "{i}"]) (use assms in auto)

lemma same_growth_upsertNode: "same_growth d1 (upsertNode cmp n d1) d2 (upsertNode cmp n d2)"
  by (rule same_growth_insert[where i = "id' n"]) auto

lemma same_growth_ensureChild: "same_growth d1 (ensureChild p c d1) d2 (ensureChild p c d2)"
  unfolding same_growth_def by (rule exI[of _ "{}"]) simp

lemma same_growth_createIfMissing:
  "same_growth d1 (createIfMissing cmp n p d1) d2 (createIfMissing cmp n p d2)"
  by (rule same_growth_insert[where i = "id' n"]) auto

lemma same_growth_ensureNode: "same_growth d1 (ensureNode i fb d1) d2 (ensureNode i fb d2)"
  by (rule same_growth_insert[where i = i]) auto

lemma ctl_at_kind: "ctl_at d1 k = ctl_at d2 k \<Longrightarrow> kind_at d1 k = kind_at d2 k"
  by (cases "map_of d1 k"; cases "map_of d2 k") (auto simp: ctl_at_def kind_at_def)

lemma ctl_at_parent: "ctl_at d1 k = ctl_at d2 k \<Longrightarrow> parent_of d1 k = parent_of d2 k"
  by (cases "map_of d1 k"; cases "map_of d2 k") (auto simp: ctl_at_def parent_of_def)

lemma agree_ensureChild:
  "agree S d1 d2 \<Longrightarrow> agree S (ensureChild p c d1) (ensureChild p c d2)"
  by (simp add: agree_def)

lemma parent_of_upsertNode_other: "k \<noteq> id' n \<Longrightarrow> parent_of (upsertNode cmp n d) k = parent_of d k"
  by (simp add: parent_of_def map_of_upsertNode_other)

lemma agreeD1: "agree S d1 d2 \<Longrightarrow> has_key d1 k \<Longrightarrow> has_key d2 k"
  by (simp add: agree_def)

lemma agreeD2:
  "agree S d1 d2 \<Longrightarrow> k \<in> S \<Longrightarrow> spatial_key k \<and> has_key d1 k \<and> ctl_at d1 k = ctl_at d2 k"
  by (simp add: agree_def)

lemma agreeD3:
  "agree S d1 d2 \<Longrightarrow> k \<in> S \<Longrightarrow> parent_of d1 k = Some q \<Longrightarrow> kind_at d1 q = kind_at d2 q"
  by (simp add: agree_def)

lemma agree_upsert_off:
  assumes "agree S d1 d2" "id' n \<notin> S"
  shows "agree S (upsertNode cmp n d1) (upsertNode cmp n d2)"
  unfolding agree_def
proof (intro conjI allI ballI impI)
  fix k assume "has_key (upsertNode cmp n d1) k"
  then show "has_key (upsertNode cmp n d2) k" using agreeD1[OF assms(1)] by auto
next
  fix k assume k: "k \<in> S"
  then have ne: "k \<noteq> id' n" using assms(2) by auto
  note a = agreeD2[OF assms(1) k]
  from a show "spatial_key k" by simp
  from a show "has_key (upsertNode cmp n d1) k" by simp
  from a ne show "ctl_at (upsertNode cmp n d1) k = ctl_at (upsertNode cmp n d2) k"
    by (simp add: ctl_at_upsertNode_other)
  fix q assume "parent_of (upsertNode cmp n d1) k = Some q"
  then have "parent_of d1 k = Some q" using ne by (simp add: parent_of_upsertNode_other)
  then have "kind_at d1 q = kind_at d2 q" by (rule agreeD3[OF assms(1) k])
  then show "kind_at (upsertNode cmp n d1) q = kind_at (upsertNode cmp n d2) q"
    by (simp add: kind_at_upsertNode)
qed

lemma upsert_on_new:
  assumes "agree S d1 d2" "parentId n = Some p" "p \<in> S \<or> p = id' n"
  shows "ctl_at (upsertNode cmp n d1) (id' n) = ctl_at (upsertNode cmp n d2) (id' n)"
    and "parent_of (upsertNode cmp n d1) (id' n) = Some q \<Longrightarrow>
         kind_at (upsertNode cmp n d1) q = kind_at (upsertNode cmp n d2) q"
proof -
  have pn: "parentId n \<noteq> None" using assms(2) by simp
  show "ctl_at (upsertNode cmp n d1) (id' n) = ctl_at (upsertNode cmp n d2) (id' n)"
    by (simp add: ctl_at_upsertNode[OF pn])
  assume "parent_of (upsertNode cmp n d1) (id' n) = Some q"
  then have qp: "q = p" using assms(2) by (simp add: parent_of_upsertNode[OF pn])
  show "kind_at (upsertNode cmp n d1) q = kind_at (upsertNode cmp n d2) q"
  proof (cases "p = id' n")
    case True
    then show ?thesis using qp by (simp add: kind_at_upsertNode)
  next
    case False
    then have "p \<in> S" using assms(3) by simp
    then have "kind_at d1 p = kind_at d2 p"
      by (intro ctl_at_kind) (use agreeD2[OF assms(1), of p] in simp)
    then show ?thesis using qp by (simp add: kind_at_upsertNode)
  qed
qed

lemma upsert_on_old:
  assumes "agree S d1 d2" "parentId n = Some p" "k \<in> S" "k \<noteq> id' n"
  shows "ctl_at (upsertNode cmp n d1) k = ctl_at (upsertNode cmp n d2) k"
    and "parent_of (upsertNode cmp n d1) k = Some q \<Longrightarrow>
         kind_at (upsertNode cmp n d1) q = kind_at (upsertNode cmp n d2) q"
proof -
  show "ctl_at (upsertNode cmp n d1) k = ctl_at (upsertNode cmp n d2) k"
    using agreeD2[OF assms(1,3)] assms(4) by (simp add: ctl_at_upsertNode_other)
  assume "parent_of (upsertNode cmp n d1) k = Some q"
  then have "parent_of d1 k = Some q" using assms(4) by (simp add: parent_of_upsertNode_other)
  then have "kind_at d1 q = kind_at d2 q" by (rule agreeD3[OF assms(1,3)])
  then show "kind_at (upsertNode cmp n d1) q = kind_at (upsertNode cmp n d2) q"
    by (simp add: kind_at_upsertNode)
qed

lemma agree_upsert_on:
  assumes "agree S d1 d2" "parentId n = Some p" "p \<in> S \<or> p = id' n" "spatial_key (id' n)"
  shows "agree (insert (id' n) S) (upsertNode cmp n d1) (upsertNode cmp n d2)"
  unfolding agree_def
proof (intro conjI allI ballI impI)
  fix k assume "has_key (upsertNode cmp n d1) k"
  then show "has_key (upsertNode cmp n d2) k" using agreeD1[OF assms(1)] by auto
next
  fix k assume "k \<in> insert (id' n) S"
  then consider (new) "k = id' n" | (old) "k \<in> S" "k \<noteq> id' n" by blast
  then show "spatial_key k"
    using assms(4) agreeD2[OF assms(1), of k] by cases simp_all
next
  fix k assume "k \<in> insert (id' n) S"
  then consider (new) "k = id' n" | (old) "k \<in> S" "k \<noteq> id' n" by blast
  then show "has_key (upsertNode cmp n d1) k"
    using agreeD2[OF assms(1), of k] by cases simp_all
next
  fix k assume "k \<in> insert (id' n) S"
  then consider (new) "k = id' n" | (old) "k \<in> S" "k \<noteq> id' n" by blast
  then show "ctl_at (upsertNode cmp n d1) k = ctl_at (upsertNode cmp n d2) k"
  proof cases
    case new
    show ?thesis unfolding new by (rule upsert_on_new(1)[OF assms(1-3)])
  next
    case old
    show ?thesis by (rule upsert_on_old(1)[OF assms(1,2) old])
  qed
next
  fix k q assume "k \<in> insert (id' n) S" and q: "parent_of (upsertNode cmp n d1) k = Some q"
  then consider (new) "k = id' n" | (old) "k \<in> S" "k \<noteq> id' n" by blast
  then show "kind_at (upsertNode cmp n d1) q = kind_at (upsertNode cmp n d2) q"
  proof cases
    case new
    show ?thesis by (rule upsert_on_new(2)[OF assms(1-3)]) (use q new in simp)
  next
    case old
    show ?thesis by (rule upsert_on_old(2)[OF assms(1,2) old q])
  qed
qed

lemma agree_createIfMissing:
  assumes "agree S d1 d2"
  shows "agree S (createIfMissing cmp n p d1) (createIfMissing cmp n p d2)"
proof (cases "has_key d1 (id' n)")
  case True
  then have "has_key d2 (id' n)" by (rule agreeD1[OF assms])
  then show ?thesis using True assms by (simp add: createIfMissing_def)
next
  case False
  then have nS: "id' n \<notin> S" using agreeD2[OF assms, of "id' n"] by auto
  show ?thesis
  proof (cases "has_key d2 (id' n)")
    case k2: False
    show ?thesis
      using False k2 agree_ensureChild[OF agree_upsert_off[OF assms nS]]
      by (simp add: createIfMissing_def)
  next
    case k2: True
    have "agree S (ensureChild p (id' n) (upsertNode cmp n d1)) d2"
      unfolding agree_def
    proof (intro conjI allI ballI impI)
      fix k assume "has_key (ensureChild p (id' n) (upsertNode cmp n d1)) k"
      then show "has_key d2 k" using k2 agreeD1[OF assms, of k] by auto
    next
      fix k assume k: "k \<in> S"
      then have ne: "k \<noteq> id' n" using nS by auto
      note a = agreeD2[OF assms k]
      from a show "spatial_key k" by simp
      from a show "has_key (ensureChild p (id' n) (upsertNode cmp n d1)) k" by simp
      from a ne show "ctl_at (ensureChild p (id' n) (upsertNode cmp n d1)) k = ctl_at d2 k"
        by (simp add: ctl_at_upsertNode_other)
      fix q assume "parent_of (ensureChild p (id' n) (upsertNode cmp n d1)) k = Some q"
      then have "parent_of d1 k = Some q" using ne by (simp add: parent_of_upsertNode_other)
      then have e: "kind_at d1 q = kind_at d2 q" by (rule agreeD3[OF assms k])
      then have "q \<noteq> id' n" using False k2 by (auto simp: has_key_kind)
      then show "kind_at (ensureChild p (id' n) (upsertNode cmp n d1)) q = kind_at d2 q"
        using e by (simp add: kind_at_upsertNode)
    qed
    then show ?thesis using False k2 by (simp add: createIfMissing_def)
  qed
qed

lemma buildingOf_agree:
  assumes "agree S d1 d2" "rp \<in> S"
  shows "buildingOf rp d1 = buildingOf rp d2"
proof -
  have c: "ctl_at d1 rp = ctl_at d2 rp" and h: "has_key d1 rp"
    and q: "\<And>q. parent_of d1 rp = Some q \<Longrightarrow> kind_at d1 q = kind_at d2 q"
    using agreeD2[OF assms] agreeD3[OF assms] by simp_all
  from h obtain p1 where p1: "map_of d1 rp = Some p1" by (auto simp: has_key_def)
  with c obtain p2 where p2: "map_of d2 rp = Some p2"
    and e: "kind p2 = kind p1" "id' p2 = id' p1" "parentId p2 = parentId p1"
    by (cases "map_of d2 rp") (auto simp: ctl_at_def)
  have "Option.bind (parentId p1) (kind_at d1) = Option.bind (parentId p1) (kind_at d2)"
    using q p1 by (cases "parentId p1") (simp_all add: parent_of_def)
  then show ?thesis
    using p1 p2 e by (simp add: buildingOf_def)
qed

lemma spatialWrite_spatial_key: "spatialWrite k kd \<Longrightarrow> spatial_key k"
  by (cases kd) (auto simp: spatialWrite_def wellKeyed_def spatial_key_def storeykey_def)

lemma spatial_key_not_objkey: "spatial_key k \<Longrightarrow> \<not> objkey k"
proof
  assume s: "spatial_key k" and o: "objkey k"
  have t: "take 6 k = ''ifc:ob''" by (rule objkey_tag[OF o])
  from s consider "k = ''root''" | "startsWith k ''ifc:project:''" | "startsWith k ''ifc:site:''"
    | "startsWith k ''ifc:building:''" | "startsWith k ''ifc:storey:''"
    unfolding spatial_key_def by blast
  then show False
  proof cases
    case 1
    then show ?thesis using t by simp
  next
    case 2
    then show ?thesis using t startsWith_take[of k "''ifc:project:''" 6] by simp
  next
    case 3
    then show ?thesis using t startsWith_take[of k "''ifc:site:''" 6] by simp
  next
    case 4
    then show ?thesis using t startsWith_take[of k "''ifc:building:''" 6] by simp
  next
    case 5
    then show ?thesis using t startsWith_take[of k "''ifc:storey:''" 6] by simp
  qed
qed

lemma agree_mono_keys: "agree S d1 d2 \<Longrightarrow> k \<in> S \<Longrightarrow> has_key d1 k \<and> has_key d2 k"
  using agreeD1 agreeD2 by blast

lemma together_spatialStep:
  assumes a: "agree S d1 d2" and r: "''root'' \<in> S" and p: "rpOf pid \<in> S"
    and k: "k = Project \<or> k = Site \<or> k = Building \<or> k = Storey"
  shows "agree (insert (fst (spatialStep mgr mid k eid tu pid d1)) S)
           (snd (spatialStep mgr mid k eid tu pid d1)) (snd (spatialStep mgr mid k eid tu pid d2))"
    and "same_growth d1 (snd (spatialStep mgr mid k eid tu pid d1))
           d2 (snd (spatialStep mgr mid k eid tu pid d2))"
proof -
  define rp where "rp = (if k = Project then ''root'' else rpOf pid)"
  define n where "n = spatialNode mgr mid k eid tu rp"
  have rpS: "rp \<in> S" using r p by (simp add: rp_def)
  have e1: "snd (spatialStep mgr mid k eid tu pid d1)
      = ensureChild rp (id' n) (upsertNode (localeCompare mgr) n d1)"
    using spatialStep_present[of d1 pid mgr mid k eid tu] agree_mono_keys[OF a r]
      agree_mono_keys[OF a p] by (simp add: rp_def n_def)
  have e2: "snd (spatialStep mgr mid k eid tu pid d2)
      = ensureChild rp (id' n) (upsertNode (localeCompare mgr) n d2)"
    using spatialStep_present[of d2 pid mgr mid k eid tu] agree_mono_keys[OF a r]
      agree_mono_keys[OF a p] by (simp add: rp_def n_def)
  have f: "fst (spatialStep mgr mid k eid tu pid d1) = id' n"
    by (simp add: fst_spatialStep n_def)
  have sk: "spatial_key (id' n)"
    using spatialWrite_spatial_key[OF wellKeyed_stableSpatialId[OF k]] by (simp add: n_def)
  have pn: "parentId n = Some rp" by (simp add: n_def)
  show "agree (insert (fst (spatialStep mgr mid k eid tu pid d1)) S)
           (snd (spatialStep mgr mid k eid tu pid d1)) (snd (spatialStep mgr mid k eid tu pid d2))"
    unfolding e1 e2 f
    by (rule agree_ensureChild[OF agree_upsert_on[OF a pn _ sk]]) (simp add: rpS)
  show "same_growth d1 (snd (spatialStep mgr mid k eid tu pid d1))
           d2 (snd (spatialStep mgr mid k eid tu pid d2))"
    unfolding e1 e2
    by (rule same_growth_trans[OF same_growth_upsertNode same_growth_ensureChild])
qed

lemma together_ess:
  assumes "agree S d1 d2"
  shows "agree S (snd (ensureSyntheticStorey cmp b d1)) (snd (ensureSyntheticStorey cmp b d2))"
    and "same_growth d1 (snd (ensureSyntheticStorey cmp b d1)) d2 (snd (ensureSyntheticStorey cmp b d2))"
  unfolding ensureSyntheticStorey_def Let_def snd_conv
  by (rule agree_createIfMissing[OF assms] same_growth_createIfMissing)+

lemma together_fallback:
  assumes "agree S d1 d2"
  shows "agree S (snd (ensureFallbackSpatialContainers cmp d1))
           (snd (ensureFallbackSpatialContainers cmp d2))"
    and "same_growth d1 (snd (ensureFallbackSpatialContainers cmp d1))
           d2 (snd (ensureFallbackSpatialContainers cmp d2))"
proof -
  show "agree S (snd (ensureFallbackSpatialContainers cmp d1))
           (snd (ensureFallbackSpatialContainers cmp d2))"
    unfolding ensureFallbackSpatialContainers_def Let_def
    by (intro together_ess(1) agree_createIfMissing assms)
  show "same_growth d1 (snd (ensureFallbackSpatialContainers cmp d1))
           d2 (snd (ensureFallbackSpatialContainers cmp d2))"
    unfolding ensureFallbackSpatialContainers_def Let_def
    by (rule same_growth_trans[OF same_growth_createIfMissing
          same_growth_trans[OF same_growth_createIfMissing
            together_ess(2)[OF agree_createIfMissing[OF agree_createIfMissing[OF assms]]]]])
qed

lemma together_storeyFor:
  assumes a: "agree S d1 d2" and p: "rp \<in> S"
  shows "fst (storeyFor cmp rp cur d1) = fst (storeyFor cmp rp cur d2)"
    and "agree S (snd (storeyFor cmp rp cur d1)) (snd (storeyFor cmp rp cur d2))"
    and "same_growth d1 (snd (storeyFor cmp rp cur d1)) d2 (snd (storeyFor cmp rp cur d2))"
proof -
  note b = buildingOf_agree[OF a p]
  show "fst (storeyFor cmp rp cur d1) = fst (storeyFor cmp rp cur d2)"
    by (auto simp: storeyFor_def Let_def b fst_ensureSyntheticStorey fst_ensureFallback
        split: option.splits)
  show "agree S (snd (storeyFor cmp rp cur d1)) (snd (storeyFor cmp rp cur d2))"
    using a together_ess(1)[OF a] together_fallback(1)[OF a]
    by (auto simp: storeyFor_def Let_def b split: option.splits)
  show "same_growth d1 (snd (storeyFor cmp rp cur d1)) d2 (snd (storeyFor cmp rp cur d2))"
    using same_growth_refl together_ess(2)[OF a] together_fallback(2)[OF a]
    by (auto simp: storeyFor_def Let_def b split: option.splits)
qed

lemma together_leafStep:
  assumes a: "agree S d1 d2" and p: "rp \<in> S"
  shows "fst (leafStep mgr mid eid tu rp cur d1) = fst (leafStep mgr mid eid tu rp cur d2)"
    and "agree S (snd (leafStep mgr mid eid tu rp cur d1)) (snd (leafStep mgr mid eid tu rp cur d2))"
    and "same_growth d1 (snd (leafStep mgr mid eid tu rp cur d1))
           d2 (snd (leafStep mgr mid eid tu rp cur d2))"
proof -
  show f: "fst (leafStep mgr mid eid tu rp cur d1) = fst (leafStep mgr mid eid tu rp cur d2)"
    unfolding fst_leafStep by (rule together_storeyFor(1)[OF a p])
  have o: "objectId mgr mid eid \<notin> S"
    using agreeD2[OF a, of "objectId mgr mid eid"] spatial_key_not_objkey objkey_objectId
    by blast
  show "agree S (snd (leafStep mgr mid eid tu rp cur d1)) (snd (leafStep mgr mid eid tu rp cur d2))"
    unfolding leafStep_unfold f
    by (intro agree_ensureChild agree_upsert_off agree_createIfMissing
          together_storeyFor(2)[OF a p]) (simp add: o)
  show "same_growth d1 (snd (leafStep mgr mid eid tu rp cur d1))
           d2 (snd (leafStep mgr mid eid tu rp cur d2))"
    unfolding leafStep_unfold f
    by (rule same_growth_trans[OF together_storeyFor(3)[OF a p]
          same_growth_trans[OF same_growth_createIfMissing
            same_growth_trans[OF same_growth_upsertNode same_growth_ensureChild]]])
qed

lemma agree_subset: "agree S' d1 d2 \<Longrightarrow> S \<subseteq> S' \<Longrightarrow> agree S d1 d2"
  unfolding agree_def by blast

lemma together_walk:
  "agree S d1 d2 \<Longrightarrow> ''root'' \<in> S \<Longrightarrow> rpOf pid \<in> S \<Longrightarrow>
   \<exists>S'. S \<subseteq> S' \<and> agree S' (walk mgr mid pid cur sp d1) (walk mgr mid pid cur sp d2) \<and>
       same_growth d1 (walk mgr mid pid cur sp d1) d2 (walk mgr mid pid cur sp d2)"
  and together_walks:
  "agree S d1 d2 \<Longrightarrow> ''root'' \<in> S \<Longrightarrow> rpOf pid \<in> S \<Longrightarrow>
   \<exists>S'. S \<subseteq> S' \<and> agree S' (walks mgr mid pid cur sps d1) (walks mgr mid pid cur sps d2) \<and>
       same_growth d1 (walks mgr mid pid cur sps d1) d2 (walks mgr mid pid cur sps d2)"
proof (induction mgr mid pid cur sp d1 and mgr mid pid cur sps d1 arbitrary: S d2 and S d2
    rule: walk_walks.induct)
  case (1 mgr mid pid currentStoreyId eid ty chs draft)
  show ?case
  proof (cases "spatialKindFromIfcType (toUpperCase ty)")
    case None
    note t = together_leafStep[OF 1(3,5), of mgr mid eid "toUpperCase ty" currentStoreyId]
    have "rpOf (Some (rpOf pid)) \<in> S" using 1(5) by (simp add: rpOf_def)
    from 1(1)[OF refl None refl refl, unfolded rpOf_def[symmetric], OF t(2) 1(4) this]
    obtain S' where S': "S \<subseteq> S'"
      "agree S'
        (walks mgr mid (Some (rpOf pid))
          (Some (fst (leafStep mgr mid eid (toUpperCase ty) (rpOf pid) currentStoreyId draft)))
          chs (snd (leafStep mgr mid eid (toUpperCase ty) (rpOf pid) currentStoreyId draft)))
        (walks mgr mid (Some (rpOf pid))
          (Some (fst (leafStep mgr mid eid (toUpperCase ty) (rpOf pid) currentStoreyId draft)))
          chs (snd (leafStep mgr mid eid (toUpperCase ty) (rpOf pid) currentStoreyId d2)))"
      "same_growth (snd (leafStep mgr mid eid (toUpperCase ty) (rpOf pid) currentStoreyId draft))
        (walks mgr mid (Some (rpOf pid))
          (Some (fst (leafStep mgr mid eid (toUpperCase ty) (rpOf pid) currentStoreyId draft)))
          chs (snd (leafStep mgr mid eid (toUpperCase ty) (rpOf pid) currentStoreyId draft)))
        (snd (leafStep mgr mid eid (toUpperCase ty) (rpOf pid) currentStoreyId d2))
        (walks mgr mid (Some (rpOf pid))
          (Some (fst (leafStep mgr mid eid (toUpperCase ty) (rpOf pid) currentStoreyId draft)))
          chs (snd (leafStep mgr mid eid (toUpperCase ty) (rpOf pid) currentStoreyId d2)))"
      by blast
    show ?thesis
      unfolding walk_element[OF None] t(1)[symmetric]
      using S'(1,2) same_growth_trans[OF t(3) S'(3)] by blast
  next
    case (Some k)
    note k4 = spatialKind_cases[OF Some]
    note t = together_spatialStep[OF 1(3,4,5) k4, of mgr mid eid "toUpperCase ty"]
    have f: "fst (spatialStep mgr mid k eid (toUpperCase ty) pid d2)
        = fst (spatialStep mgr mid k eid (toUpperCase ty) pid draft)"
      by (simp add: fst_spatialStep)
    have r': "''root'' \<in> insert (fst (spatialStep mgr mid k eid (toUpperCase ty) pid draft)) S"
      using 1(4) by simp
    have p': "rpOf (Some (fst (spatialStep mgr mid k eid (toUpperCase ty) pid draft)))
        \<in> insert (fst (spatialStep mgr mid k eid (toUpperCase ty) pid draft)) S"
      by (simp add: rpOf_def)
    from 1(2)[OF refl Some refl t(1) r' p']
    obtain S' where S': "insert (fst (spatialStep mgr mid k eid (toUpperCase ty) pid draft)) S \<subseteq> S'"
      "agree S'
        (walks mgr mid (Some (fst (spatialStep mgr mid k eid (toUpperCase ty) pid draft)))
          (if k = Storey then Some (fst (spatialStep mgr mid k eid (toUpperCase ty) pid draft))
           else currentStoreyId)
          chs (snd (spatialStep mgr mid k eid (toUpperCase ty) pid draft)))
        (walks mgr mid (Some (fst (spatialStep mgr mid k eid (toUpperCase ty) pid draft)))
          (if k = Storey then Some (fst (spatialStep mgr mid k eid (toUpperCase ty) pid draft))
           else currentStoreyId)
          chs (snd (spatialStep mgr mid k eid (toUpperCase ty) pid d2)))"
      "same_growth (snd (spatialStep mgr mid k eid (toUpperCase ty) pid draft))
        (walks mgr mid (Some (fst (spatialStep mgr mid k eid (toUpperCase ty) pid draft)))
          (if k = Storey then Some (fst (spatialStep mgr mid k eid (toUpperCase ty) pid draft))
           else currentStoreyId)
          chs (snd (spatialStep mgr mid k eid (toUpperCase ty) pid draft)))
        (snd (spatialStep mgr mid k eid (toUpperCase ty) pid d2))
        (walks mgr mid (Some (fst (spatialStep mgr mid k eid (toUpperCase ty) pid draft)))
          (if k = Storey then Some (fst (spatialStep mgr mid k eid (toUpperCase ty) pid draft))
           else currentStoreyId)
          chs (snd (spatialStep mgr mid k eid (toUpperCase ty) pid d2)))"
      by blast
    have "S \<subseteq> S'" using S'(1) by blast
    then show ?thesis
      unfolding walk_spatial[OF Some] f
      using S'(2) same_growth_trans[OF t(2) S'(3)] by blast
  qed
next
  case (2 mgr mid pid currentStoreyId draft)
  then show ?case using same_growth_refl by auto
next
  case (3 mgr mid pid currentStoreyId ch rest draft)
  from 3(1)[OF 3(3,4,5)] obtain S1 where S1: "S \<subseteq> S1"
    "agree S1 (walk mgr mid pid currentStoreyId ch draft) (walk mgr mid pid currentStoreyId ch d2)"
    "same_growth draft (walk mgr mid pid currentStoreyId ch draft)
       d2 (walk mgr mid pid currentStoreyId ch d2)"
    by blast
  have "''root'' \<in> S1" "rpOf pid \<in> S1" using S1(1) 3(4,5) by auto
  from 3(2)[OF S1(2) this] obtain S2 where S2: "S1 \<subseteq> S2"
    "agree S2 (walks mgr mid pid currentStoreyId rest (walk mgr mid pid currentStoreyId ch draft))
       (walks mgr mid pid currentStoreyId rest (walk mgr mid pid currentStoreyId ch d2))"
    "same_growth (walk mgr mid pid currentStoreyId ch draft)
       (walks mgr mid pid currentStoreyId rest (walk mgr mid pid currentStoreyId ch draft))
       (walk mgr mid pid currentStoreyId ch d2)
       (walks mgr mid pid currentStoreyId rest (walk mgr mid pid currentStoreyId ch d2))"
    by blast
  have "S \<subseteq> S2" using S1(1) S2(1) by blast
  then show ?case
    unfolding walks.simps
    using S2(2) same_growth_trans[OF S1(3) S2(3)] by blast
qed

subsection \<open>The order of the keys\<close>

lemma has_key_keys: "has_key d k \<longleftrightarrow> k \<in> set (map fst d)"
  by (simp add: has_key_def map_of_eq_None_iff)

lemma extends_refl: "extends d d"
  by (simp add: extends_def)

lemma extends_trans: "extends d d' \<Longrightarrow> extends d' d'' \<Longrightarrow> extends d d''"
  unfolding extends_def by auto

lemma extends_update: "extends d (AList.update k v d)"
  by (auto simp: extends_def update_keys distinct_update)

lemma extends_upsertNode: "extends d (upsertNode cmp n d)"
  by (simp add: upsertNode_def extends_update split: option.splits)

lemma extends_ensureChild: "extends d (ensureChild p c d)"
  by (simp add: ensureChild_def extends_update extends_refl split: option.splits)

lemma extends_ensureNode: "extends d (ensureNode i fb d)"
  by (simp add: ensureNode_def extends_update extends_refl)

lemma extends_createIfMissing: "extends d (createIfMissing cmp n p d)"
  unfolding createIfMissing_def
  by (auto intro: extends_refl extends_trans[OF extends_upsertNode extends_ensureChild])

lemma extends_ensureSyntheticStorey: "extends d (snd (ensureSyntheticStorey cmp b d))"
  by (simp add: ensureSyntheticStorey_def Let_def extends_createIfMissing)

lemma extends_ensureFallback: "extends d (snd (ensureFallbackSpatialContainers cmp d))"
  unfolding ensureFallbackSpatialContainers_def Let_def
  by (rule extends_trans[OF extends_createIfMissing
        extends_trans[OF extends_createIfMissing extends_ensureSyntheticStorey]])

lemma extends_storeyFor: "extends d (snd (storeyFor cmp rp cur d))"
  by (auto simp: storeyFor_def Let_def extends_refl extends_ensureFallback
      extends_ensureSyntheticStorey split: option.splits)

lemma extends_spatialStep: "extends d (snd (spatialStep mgr mid k eid tu pid d))"
  unfolding spatialStep_def Let_def snd_conv
  by (rule extends_trans[OF extends_ensureNode
        extends_trans[OF extends_upsertNode extends_ensureChild]])

lemma extends_leafStep: "extends d (snd (leafStep mgr mid eid tu rp cur d))"
  unfolding leafStep_def Let_def snd_conv
  by (rule extends_trans[OF extends_storeyFor
        extends_trans[OF extends_createIfMissing
          extends_trans[OF extends_upsertNode extends_ensureChild]]])

lemma extends_walk: "extends d (walk mgr mid pid cur sp d)"
  and extends_walks: "extends d (walks mgr mid pid cur sps d)"
proof (induction mgr mid pid cur sp d and mgr mid pid cur sps d rule: walk_walks.induct)
  case (1 mgr mid pid currentStoreyId eid ty chs draft)
  show ?case
  proof (cases "spatialKindFromIfcType (toUpperCase ty)")
    case None
    show ?thesis
      unfolding walk_element[OF None]
      by (rule extends_trans[OF extends_leafStep])
        (use 1(1)[OF refl None refl refl] in \<open>simp add: rpOf_def\<close>)
  next
    case (Some k)
    show ?thesis
      unfolding walk_spatial[OF Some]
      by (rule extends_trans[OF extends_spatialStep]) (rule 1(2)[OF refl Some refl])
  qed
next
  case (2 mgr mid pid currentStoreyId draft)
  then show ?case by (simp add: extends_refl)
next
  case (3 mgr mid pid currentStoreyId ch rest draft)
  show ?case
    unfolding walks.simps by (rule extends_trans[OF 3(1) 3(2)])
qed

subsection \<open>A second import of the same model\<close>

lemma root_kept:
  assumes "writes wellKeyed d d'"
  shows "ctl_at d' ''root'' = ctl_at d ''root''"
proof -
  from assms have "ctl_at d' ''root'' = ctl_at d ''root'' \<or>
      (\<exists>kd p. ctl_at d' ''root'' = Some (kd, ''root'', Some p) \<and> wellKeyed ''root'' kd)"
    unfolding writes_def ..
  moreover have "\<not> wellKeyed ''root'' kd" for kd
    using wellKeyed_tag[of "''root''" kd] by (cases kd) auto
  ultimately show ?thesis by blast
qed

lemma agree_start:
  assumes "d1 = walk mgr mid (Some ''root'') None sp [(''root'', rootNode)]"
  shows "agree {''root''} [(''root'', rootNode)] d1"
proof -
  have r: "ready (Some ''root'') None [(''root'', rootNode)]"
    by (simp add: ready_def rpOf_def has_key_def)
  have h: "has_key d1 ''root''"
    unfolding assms by (rule grows_has_key[OF grows_walk]) (simp add: has_key_def)
  have c: "ctl_at d1 ''root'' = ctl_at [(''root'', rootNode)] ''root''"
    unfolding assms by (rule root_kept[OF writes_walk[OF r]])
  have p: "parent_of [(''root'', rootNode)] ''root'' = None"
    by (simp add: parent_of_def rootNode_def)
  show ?thesis
    unfolding agree_def using h c p
    by (auto simp: spatial_key_def has_key_def split: if_splits)
qed

lemma same_keys:
  assumes "same_growth d0 d1 d1 d2"
  shows "set (map fst d2) = set (map fst d1)"
proof -
  from assms obtain T where T: "\<And>k. has_key d1 k = (k \<in> T \<or> has_key d0 k)"
    "\<And>k. has_key d2 k = (k \<in> T \<or> has_key d1 k)"
    unfolding same_growth_def by blast
  have "\<And>k. has_key d2 k = has_key d1 k" using T by blast
  then show ?thesis unfolding has_key_keys by blast
qed

lemma extends_same:
  assumes "extends d1 d2" "set (map fst d2) = set (map fst d1)" "distinct (map fst d1)"
  shows "map fst d2 = map fst d1"
proof -
  from assms(1) obtain ks where ks: "map fst d2 = map fst d1 @ ks"
    unfolding extends_def by blast
  have "distinct (map fst d2)" using assms(1,3) by (simp add: extends_def)
  then have dj: "\<And>x. x \<in> set ks \<Longrightarrow> x \<notin> set (map fst d1)"
    unfolding ks distinct_append by blast
  have sb: "\<And>x. x \<in> set ks \<Longrightarrow> x \<in> set (map fst d1)"
    using assms(2) unfolding ks set_append by blast
  have "ks = []"
  proof (cases ks)
    case (Cons x xs)
    then have "x \<in> set ks" by simp
    then show ?thesis using dj sb by blast
  qed simp
  then show ?thesis using ks by simp
qed

text \<open>
  C6.  For every attribute source and every model id, the import into the empty tree
  succeeds, a second import of the same model into its result succeeds, and the second
  result has the same keys as the first, in the same order and without repetition: the
  second import adds no node id.
\<close>

theorem import_twice_same_ids:
  "\<exists>d1 d2. importIfcIntoCoordinator (Some mgr) mid [] = Inr d1 \<and>
     importIfcIntoCoordinator (Some mgr) mid d1 = Inr d2 \<and>
     map fst d2 = map fst d1 \<and> distinct (map fst d1)"
proof (cases "getSpatialStructure mgr mid")
  case None
  have "importIfcIntoCoordinator (Some mgr) mid [] = Inr [(''root'', rootNode)]"
    using None by (simp add: importIfcIntoCoordinator_def ensureNode_def)
  moreover have "importIfcIntoCoordinator (Some mgr) mid [(''root'', rootNode)]
      = Inr [(''root'', rootNode)]"
    using None by (simp add: importIfcIntoCoordinator_def ensureNode_def has_key_def)
  ultimately show ?thesis by simp
next
  case (Some sp)
  define d0 where "d0 = [(''root'', rootNode)]"
  define d1 where "d1 = walk mgr mid (Some ''root'') None sp d0"
  define d2 where "d2 = walk mgr mid (Some ''root'') None sp d1"
  have i1: "importIfcIntoCoordinator (Some mgr) mid [] = Inr d1"
    using Some by (simp add: importIfcIntoCoordinator_def ensureNode_def d1_def d0_def)
  have a: "agree {''root''} d0 d1"
    unfolding d0_def by (rule agree_start) (simp add: d1_def d0_def)
  have h: "has_key d1 ''root''" using agree_mono_keys[OF a] by simp
  have i2: "importIfcIntoCoordinator (Some mgr) mid d1 = Inr d2"
    using Some h by (simp add: importIfcIntoCoordinator_def d2_def)
  from together_walk[OF a, of "Some ''root''" mgr mid None sp]
  have g: "same_growth d0 d1 d1 d2"
    unfolding d1_def[symmetric] d2_def[symmetric] by (auto simp: rpOf_def)
  have e1: "extends d0 d1" unfolding d1_def by (rule extends_walk)
  have e2: "extends d1 d2" unfolding d2_def by (rule extends_walk)
  have dd: "distinct (map fst d1)" using e1 by (simp add: extends_def d0_def)
  have "map fst d2 = map fst d1"
    by (rule extends_same[OF e2 same_keys[OF g] dd])
  then show ?thesis using i1 i2 dd by blast
qed

text \<open>C6 for the wall with a door below it, in a storey of a project.\<close>

theorem import_twice_same_ids_witness:
  "\<exists>d1 d2. importIfcIntoCoordinator (Some (mgr0 (Some nested_elements))) 0 [] = Inr d1 \<and>
     importIfcIntoCoordinator (Some (mgr0 (Some nested_elements))) 0 d1 = Inr d2 \<and>
     map fst d2 = map fst d1 \<and> distinct (map fst d1)"
  using import_twice_same_ids[of "mgr0 (Some nested_elements)" 0] .

end
